theory Spec2Isabelle
  imports Main "HOL-Library.Multiset" "HOL-Library.Sublist"
begin

section \<open>The optional package (optional/optional.go)\<close>

text \<open>
  \<^verbatim>\<open>type Optional[T any] struct { value T; found bool }\<close>.
  \<^verbatim>\<open>Empty[T]()\<close> builds \<^verbatim>\<open>Optional[T]{found: false}\<close>, whose \<^verbatim>\<open>value\<close> field is
  the zero value of \<^verbatim>\<open>T\<close>. HOL has no zero value per type, so the functions that
  build an empty Optional take it as the argument \<open>zero\<close>.
\<close>

record 'a Optional =
  val :: 'a
  found :: bool

definition Of :: "'a \<Rightarrow> 'a Optional" where
  "Of v = \<lparr>val = v, found = True\<rparr>"

definition Empty :: "'a \<Rightarrow> 'a Optional" where
  "Empty zero = \<lparr>val = zero, found = False\<rparr>"

definition IsPresent :: "'a Optional \<Rightarrow> bool" where
  "IsPresent opt = found opt"

definition GetIfPresent :: "'a \<Rightarrow> 'a Optional \<Rightarrow> 'a \<times> bool" where
  "GetIfPresent zero opt = (if found opt then (val opt, True) else (zero, False))"

section \<open>Streams as values (stream/stream.go)\<close>

text \<open>
  \<^verbatim>\<open>type Stream[T any] struct { elements []T }\<close>. In this section a slice is the list
  of its elements (a nil slice and an empty slice are both \<open>[]\<close>); the section on
  slices in memory below keeps the backing arrays.
\<close>

record 'a Stream =
  elements :: "'a list"

definition NewStream :: "'a list \<Rightarrow> 'a Stream" where
  "NewStream es = \<lparr>elements = es\<rparr>"

text \<open>A run-time panic of the Go program is a value of this type.\<close>

datatype panic =
  SliceBoundsOutOfRange int  \<comment> \<open>\<^verbatim>\<open>runtime error: slice bounds out of range [:n]\<close>\<close>

subsection \<open>Filter, ForEach, Reduce\<close>

text \<open>Each \<^verbatim>\<open>for _, e := range s.elements\<close> loop is a recursion over the list that
  carries the loop's variables; \<^verbatim>\<open>append(result, e)\<close> is \<open>result @ [e]\<close>.\<close>

fun Filter_loop :: "('a \<Rightarrow> bool) \<Rightarrow> 'a list \<Rightarrow> 'a list \<Rightarrow> 'a list" where
  "Filter_loop predicate [] result = result"
| "Filter_loop predicate (e # es) result =
     Filter_loop predicate es (if predicate e then result @ [e] else result)"

definition Filter :: "'a Stream \<Rightarrow> ('a \<Rightarrow> bool) \<Rightarrow> 'a Stream" where
  "Filter s predicate = NewStream (Filter_loop predicate (elements s) [])"

fun Reduce_loop :: "('a \<Rightarrow> 'a \<Rightarrow> 'a) \<Rightarrow> 'a list \<Rightarrow> 'a \<Rightarrow> 'a" where
  "Reduce_loop reducer [] accumulator = accumulator"
| "Reduce_loop reducer (e # es) accumulator = Reduce_loop reducer es (reducer accumulator e)"

definition Reduce :: "'a Stream \<Rightarrow> ('a \<Rightarrow> 'a \<Rightarrow> 'a) \<Rightarrow> 'a \<Rightarrow> 'a" where
  "Reduce s reducer initialValue = Reduce_loop reducer (elements s) initialValue"

subsection \<open>Sort\<close>

text \<open>
  \<^verbatim>\<open>Sort\<close> copies the elements into a fresh slice and hands it to \<^verbatim>\<open>sort.Slice\<close>
  of Go's standard library, with a comparison that reads the two positions of that
  slice and calls \<^verbatim>\<open>less\<close>. The library routine is not part of this repository; it is
  the argument \<open>sort_Slice\<close>: the comparison on elements and the slice's contents in,
  the contents after the in-place sort out.
\<close>

type_synonym 'a slice_sorter = "('a \<Rightarrow> 'a \<Rightarrow> bool) \<Rightarrow> 'a list \<Rightarrow> 'a list"

definition Sort :: "'a slice_sorter \<Rightarrow> 'a Stream \<Rightarrow> ('a \<Rightarrow> 'a \<Rightarrow> bool) \<Rightarrow> 'a Stream" where
  "Sort sort_Slice s less_fn =
     (let result = elements s  \<comment> \<open>\<^verbatim>\<open>make\<close> and \<^verbatim>\<open>copy\<close>\<close>
      in NewStream (sort_Slice less_fn result))"

subsection \<open>ToSlice, Count, Collect, FindAny, FindFirst\<close>

definition ToSlice :: "'a Stream \<Rightarrow> 'a list" where
  "ToSlice s = elements s"

definition Count :: "'a Stream \<Rightarrow> int" where
  "Count s = int (length (elements s))"

text \<open>The method \<^verbatim>\<open>(s *Stream[T]) Collect()\<close> and the function \<^verbatim>\<open>Collect(stream)\<close>.\<close>

definition Collect_method :: "'a Stream \<Rightarrow> 'a list" where
  "Collect_method s = elements s"

definition Collect_stream :: "'a Stream \<Rightarrow> 'a list" where
  "Collect_stream stream = elements stream"

definition FindAny :: "'a \<Rightarrow> 'a Stream \<Rightarrow> 'a Optional" where
  "FindAny zero s =
     (if length (elements s) > 0 then Of (elements s ! 0) else Empty zero)"

definition FindFirst :: "'a \<Rightarrow> 'a Stream \<Rightarrow> 'a Optional" where
  "FindFirst zero s =
     (if length (elements s) > 0 then Of (elements s ! 0) else Empty zero)"

subsection \<open>FlatMap, Distinct, Map, Limit\<close>

fun FlatMap_loop :: "('a \<Rightarrow> 'b list) \<Rightarrow> 'a list \<Rightarrow> 'b list \<Rightarrow> 'b list" where
  "FlatMap_loop mapper [] result = result"
| "FlatMap_loop mapper (e # es) result = FlatMap_loop mapper es (result @ mapper e)"

text \<open>The method \<^verbatim>\<open>(s *Stream[T]) FlatMap\<close> (results of type \<^verbatim>\<open>interface{}\<close>) and the
  generic function \<^verbatim>\<open>FlatMap[T, R]\<close> have the same body.\<close>

definition FlatMap_method :: "'a Stream \<Rightarrow> ('a \<Rightarrow> 'b list) \<Rightarrow> 'b Stream" where
  "FlatMap_method s mapper = NewStream (FlatMap_loop mapper (elements s) [])"

definition FlatMap :: "'a Stream \<Rightarrow> ('a \<Rightarrow> 'b list) \<Rightarrow> 'b Stream" where
  "FlatMap stream mapper = NewStream (FlatMap_loop mapper (elements stream) [])"

text \<open>
  \<^verbatim>\<open>Distinct\<close> keys every element by \<^verbatim>\<open>fmt.Sprintf("%v", e)\<close>. The formatter belongs
  to Go's standard library and depends on the element type; it is the argument
  \<open>Sprintf_v\<close>. \<^verbatim>\<open>uniqueMap\<close> is a Go map from keys to \<^verbatim>\<open>bool\<close>.
\<close>

fun Distinct_loop ::
  "('a \<Rightarrow> string) \<Rightarrow> 'a list \<Rightarrow> (string \<rightharpoonup> bool) \<Rightarrow> 'a list \<Rightarrow> 'a list" where
  "Distinct_loop Sprintf_v [] uniqueMap result = result"
| "Distinct_loop Sprintf_v (e # es) uniqueMap result =
     (let key = Sprintf_v e in
      case uniqueMap key of
        None \<Rightarrow> Distinct_loop Sprintf_v es (uniqueMap(key \<mapsto> True)) (result @ [e])
      | Some exists \<Rightarrow> Distinct_loop Sprintf_v es uniqueMap result)"

definition Distinct :: "('a \<Rightarrow> string) \<Rightarrow> 'a Stream \<Rightarrow> 'a Stream" where
  "Distinct Sprintf_v s = NewStream (Distinct_loop Sprintf_v (elements s) Map.empty [])"

fun Map_loop :: "('a \<Rightarrow> 'b) \<Rightarrow> 'a list \<Rightarrow> 'b list \<Rightarrow> 'b list" where
  "Map_loop mapper [] result = result"
| "Map_loop mapper (e # es) result = Map_loop mapper es (result @ [mapper e])"

definition Map :: "'a Stream \<Rightarrow> ('a \<Rightarrow> 'b) \<Rightarrow> 'b Stream" where
  "Map stream mapper = NewStream (Map_loop mapper (elements stream) [])"

text \<open>
  \<^verbatim>\<open>Limit\<close>: \<^verbatim>\<open>n\<close> is a Go \<^verbatim>\<open>int\<close>. The slice expression \<^verbatim>\<open>stream.elements[:n]\<close>
  panics unless \<open>0 \<le> n \<le> cap\<close>; it is reached only with \<open>n < len \<le> cap\<close>, so it
  panics exactly when \<open>n\<close> is negative.
\<close>

definition Limit :: "'a Stream \<Rightarrow> int \<Rightarrow> panic + 'a Stream" where
  "Limit stream n =
     (if n \<ge> int (length (elements stream)) then Inr stream
      else if n < 0 then Inl (SliceBoundsOutOfRange n)
      else Inr (NewStream (take (nat n) (elements stream))))"

subsection \<open>Join\<close>

fun Join_loop :: "('a \<Rightarrow> string) \<Rightarrow> string \<Rightarrow> nat \<Rightarrow> 'a list \<Rightarrow> string \<Rightarrow> string" where
  "Join_loop Sprintf_v separator i [] result = result"
| "Join_loop Sprintf_v separator i (e # es) result =
     Join_loop Sprintf_v separator (i + 1) es
       ((if i > 0 then result @ separator else result) @ Sprintf_v e)"

definition Join :: "('a \<Rightarrow> string) \<Rightarrow> 'a Stream \<Rightarrow> string \<Rightarrow> string" where
  "Join Sprintf_v s separator =
     (if length (elements s) = 0 then ''''
      else if length (elements s) = 1 then Sprintf_v (elements s ! 0)
      else Join_loop Sprintf_v separator 0 (elements s) '''')"

subsection \<open>GroupBy and its variants\<close>

text \<open>
  A Go map is a partial function. \<^verbatim>\<open>result[key]\<close> of a missing key is the nil slice,
  so \<^verbatim>\<open>result[key] = append(result[key], e)\<close> starts a new group with \<open>[e]\<close>.
  Keys are the values of a HOL type: they can be hashed and are equal to themselves,
  as the keys of a Go map must be.
\<close>

definition lookup_slice :: "('k \<rightharpoonup> 'v list) \<Rightarrow> 'k \<Rightarrow> 'v list" where
  "lookup_slice result key = (case result key of None \<Rightarrow> [] | Some vs \<Rightarrow> vs)"

fun GroupBy_loop :: "('a \<Rightarrow> 'k) \<Rightarrow> 'a list \<Rightarrow> ('k \<rightharpoonup> 'a list) \<Rightarrow> ('k \<rightharpoonup> 'a list)" where
  "GroupBy_loop keyMapper [] result = result"
| "GroupBy_loop keyMapper (e # es) result =
     (let key = keyMapper e in
      GroupBy_loop keyMapper es (result(key \<mapsto> lookup_slice result key @ [e])))"

fun GroupByWithValueMapper_loop ::
  "('a \<Rightarrow> 'k) \<Rightarrow> ('a \<Rightarrow> 'v) \<Rightarrow> 'a list \<Rightarrow> ('k \<rightharpoonup> 'v list) \<Rightarrow> ('k \<rightharpoonup> 'v list)" where
  "GroupByWithValueMapper_loop keyMapper valueMapper [] result = result"
| "GroupByWithValueMapper_loop keyMapper valueMapper (e # es) result =
     (let key = keyMapper e; v = valueMapper e in
      GroupByWithValueMapper_loop keyMapper valueMapper es
        (result(key \<mapsto> lookup_slice result key @ [v])))"

text \<open>The generic functions \<^verbatim>\<open>GroupBy[T, K]\<close> and \<^verbatim>\<open>GroupByWithValueMapper[T, K, V]\<close>.\<close>

definition GroupBy :: "'a Stream \<Rightarrow> ('a \<Rightarrow> 'k) \<Rightarrow> ('k \<rightharpoonup> 'a list)" where
  "GroupBy stream keyMapper = GroupBy_loop keyMapper (elements stream) Map.empty"

definition GroupByWithValueMapper ::
  "'a Stream \<Rightarrow> ('a \<Rightarrow> 'k) \<Rightarrow> ('a \<Rightarrow> 'v) \<Rightarrow> ('k \<rightharpoonup> 'v list)" where
  "GroupByWithValueMapper stream keyMapper valueMapper =
     GroupByWithValueMapper_loop keyMapper valueMapper (elements stream) Map.empty"

text \<open>The methods \<^verbatim>\<open>GroupBy\<close>, \<^verbatim>\<open>GroupByString\<close> (keys of type \<^verbatim>\<open>interface{}\<close>,
  \<^verbatim>\<open>string\<close>) and \<^verbatim>\<open>GroupByAndTransform\<close>, \<^verbatim>\<open>GroupByStringToString\<close> run the same
  two loops.\<close>

definition GroupBy_method :: "'a Stream \<Rightarrow> ('a \<Rightarrow> 'k) \<Rightarrow> ('k \<rightharpoonup> 'a list)" where
  "GroupBy_method s keyMapper = GroupBy_loop keyMapper (elements s) Map.empty"

definition GroupByAndTransform ::
  "'a Stream \<Rightarrow> ('a \<Rightarrow> 'k) \<Rightarrow> ('a \<Rightarrow> 'v) \<Rightarrow> ('k \<rightharpoonup> 'v list)" where
  "GroupByAndTransform s keyMapper valueMapper =
     GroupByWithValueMapper_loop keyMapper valueMapper (elements s) Map.empty"

section \<open>The parallel stage (stream/parallelstream.go)\<close>

text \<open>
  \<^verbatim>\<open>ParallelStream\<close> starts one goroutine per element. The main goroutine and the
  workers interleave, so the function is a transition system: a state holds what the
  shared objects hold, and every step is one action of one goroutine.
  \<^item> \<open>todo\<close>: the elements the \<^verbatim>\<open>range\<close> loop has not reached;
  \<^item> \<open>sem\<close>: the number of tokens in the buffered channel \<^verbatim>\<open>sem\<close>
    (capacity \<^verbatim>\<open>maxGoroutines\<close>);
  \<^item> \<open>wg\<close>: the counter of the \<^verbatim>\<open>sync.WaitGroup\<close>;
  \<^item> \<open>resultChan\<close>: the buffer of \<^verbatim>\<open>resultChan\<close> in sending order (capacity
    \<^verbatim>\<open>len(s.elements)\<close>);
  \<^item> \<open>goroutines\<close>: the live workers, each at one of three places:
    \<open>Started el\<close> before \<^verbatim>\<open>resultChan <- mapper(el)\<close>, \<open>Sent\<close> before the deferred
    \<^verbatim>\<open><-sem\<close>, \<open>Released\<close> before the deferred \<^verbatim>\<open>wg.Done()\<close> (deferred calls run
    last-registered first);
  \<^item> \<open>pc\<close>: where the main goroutine stands: at the head of the loop, blocked on
    \<^verbatim>\<open>sem <- struct{}{}\<close> for element \<open>e\<close> (after \<^verbatim>\<open>wg.Add(1)\<close>), in
    \<^verbatim>\<open>wg.Wait()\<close>, or returned with the collected results.
  A step that would block (a send to a full channel, \<^verbatim>\<open>wg.Wait\<close> on a non-zero
  counter) is not enabled. \<^verbatim>\<open>mapper\<close> is a function of HOL: it returns and has no
  effect of its own.
\<close>


datatype 'a goroutine = Started 'a | Sent | Released

datatype ('a, 'r) main_pc = Ranging | Acquiring 'a | Waiting | Returned "'r list"

record ('a, 'r) par_state =
  pc :: "('a, 'r) main_pc"
  todo :: "'a list"
  goroutines :: "'a goroutine multiset"
  sem :: nat
  wg :: nat
  resultChan :: "'r list"

definition par_init :: "'a list \<Rightarrow> ('a, 'r) par_state" where
  "par_init es =
     \<lparr>pc = Ranging, todo = es, goroutines = {#}, sem = 0, wg = 0, resultChan = []\<rparr>"

inductive par_step ::
  "('a \<Rightarrow> 'r) \<Rightarrow> nat \<Rightarrow> nat \<Rightarrow> ('a, 'r) par_state \<Rightarrow> ('a, 'r) par_state \<Rightarrow> bool"
  for mapper :: "'a \<Rightarrow> 'r" and sem_cap :: nat and chan_cap :: nat where
  wg_Add:
    "pc \<sigma> = Ranging \<Longrightarrow> todo \<sigma> = e # es \<Longrightarrow>
     par_step mapper sem_cap chan_cap \<sigma> (\<sigma>\<lparr>pc := Acquiring e, todo := es, wg := wg \<sigma> + 1\<rparr>)"
| sem_acquire_go:
    "pc \<sigma> = Acquiring e \<Longrightarrow> sem \<sigma> < sem_cap \<Longrightarrow>
     par_step mapper sem_cap chan_cap \<sigma>
       (\<sigma>\<lparr>pc := Ranging, sem := sem \<sigma> + 1, goroutines := goroutines \<sigma> + {#Started e#}\<rparr>)"
| range_end:
    "pc \<sigma> = Ranging \<Longrightarrow> todo \<sigma> = [] \<Longrightarrow>
     par_step mapper sem_cap chan_cap \<sigma> (\<sigma>\<lparr>pc := Waiting\<rparr>)"
| send_result:
    "Started el \<in># goroutines \<sigma> \<Longrightarrow> length (resultChan \<sigma>) < chan_cap \<Longrightarrow>
     par_step mapper sem_cap chan_cap \<sigma>
       (\<sigma>\<lparr>resultChan := resultChan \<sigma> @ [mapper el],
          goroutines := goroutines \<sigma> - {#Started el#} + {#Sent#}\<rparr>)"
| sem_release:
    "Sent \<in># goroutines \<sigma> \<Longrightarrow> 0 < sem \<sigma> \<Longrightarrow>
     par_step mapper sem_cap chan_cap \<sigma>
       (\<sigma>\<lparr>sem := sem \<sigma> - 1, goroutines := goroutines \<sigma> - {#Sent#} + {#Released#}\<rparr>)"
| wg_Done:
    "Released \<in># goroutines \<sigma> \<Longrightarrow> 0 < wg \<sigma> \<Longrightarrow>
     par_step mapper sem_cap chan_cap \<sigma>
       (\<sigma>\<lparr>wg := wg \<sigma> - 1, goroutines := goroutines \<sigma> - {#Released#}\<rparr>)"
| wg_Wait_collect:
    "pc \<sigma> = Waiting \<Longrightarrow> wg \<sigma> = 0 \<Longrightarrow>
     par_step mapper sem_cap chan_cap \<sigma> (\<sigma>\<lparr>pc := Returned (resultChan \<sigma>)\<rparr>)"

text \<open>
  \<^verbatim>\<open>if maxGoroutines <= 0 { maxGoroutines = runtime.GOMAXPROCS(0) }\<close>: the
  runtime's setting is the argument \<open>gomaxprocs\<close>.
\<close>

definition semaphore_size :: "int \<Rightarrow> int \<Rightarrow> nat" where
  "semaphore_size gomaxprocs maxGoroutines =
     nat (if maxGoroutines \<le> 0 then gomaxprocs else maxGoroutines)"

text \<open>
  \<open>ParallelStream_returns gomaxprocs s mapper maxGoroutines out\<close>: some interleaving
  of the call \<^verbatim>\<open>s.ParallelStream(mapper, maxGoroutines)\<close> returns the stream \<open>out\<close>.
\<close>

definition ParallelStream_returns ::
  "int \<Rightarrow> 'a Stream \<Rightarrow> ('a \<Rightarrow> 'r) \<Rightarrow> int \<Rightarrow> 'r Stream \<Rightarrow> bool" where
  "ParallelStream_returns gomaxprocs s mapper maxGoroutines out =
     (\<exists>\<sigma> result.
        (par_step mapper (semaphore_size gomaxprocs maxGoroutines) (length (elements s)))\<^sup>*\<^sup>*
          (par_init (elements s)) \<sigma>
        \<and> pc \<sigma> = Returned result \<and> out = NewStream result)"


subsection \<open>Bookkeeping for the proofs about the parallel stage\<close>

text \<open>
  \<open>unsent\<close> collects the elements whose result is not in the channel yet;
  \<open>par_inv\<close> is the invariant of the transition system and \<open>par_weight\<close> counts the
  steps a state has left.
\<close>


fun goroutine_arg :: "'a goroutine \<Rightarrow> 'a multiset" where
  "goroutine_arg (Started el) = {#el#}"
| "goroutine_arg Sent = {#}"
| "goroutine_arg Released = {#}"

fun goroutine_token :: "'a goroutine \<Rightarrow> nat" where
  "goroutine_token (Started el) = 1"
| "goroutine_token Sent = 1"
| "goroutine_token Released = 0"

fun pc_arg :: "('a, 'r) main_pc \<Rightarrow> 'a multiset" where
  "pc_arg (Acquiring e) = {#e#}"
| "pc_arg Ranging = {#}"
| "pc_arg Waiting = {#}"
| "pc_arg (Returned r) = {#}"

definition unsent :: "('a, 'r) par_state \<Rightarrow> 'a multiset" where
  "unsent \<sigma> = mset (todo \<sigma>) + pc_arg (pc \<sigma>) + (\<Sum>g \<in># goroutines \<sigma>. goroutine_arg g)"

definition par_inv :: "('a \<Rightarrow> 'r) \<Rightarrow> 'a list \<Rightarrow> ('a, 'r) par_state \<Rightarrow> bool" where
  "par_inv mapper es \<sigma> =
     (mset (resultChan \<sigma>) + image_mset mapper (unsent \<sigma>) = image_mset mapper (mset es)
      \<and> sem \<sigma> = (\<Sum>g \<in># goroutines \<sigma>. goroutine_token g)
      \<and> wg \<sigma> = size (goroutines \<sigma>) + size (pc_arg (pc \<sigma>))
      \<and> (pc \<sigma> = Waiting \<longrightarrow> todo \<sigma> = [])
      \<and> (\<forall>r. pc \<sigma> = Returned r \<longrightarrow> r = resultChan \<sigma> \<and> unsent \<sigma> = {#}))"

fun goroutine_weight :: "'a goroutine \<Rightarrow> nat" where
  "goroutine_weight (Started el) = 3"
| "goroutine_weight Sent = 2"
| "goroutine_weight Released = 1"

fun pc_weight :: "('a, 'r) main_pc \<Rightarrow> nat" where
  "pc_weight Ranging = 2"
| "pc_weight (Acquiring e) = 6"
| "pc_weight Waiting = 1"
| "pc_weight (Returned r) = 0"

definition par_weight :: "('a, 'r) par_state \<Rightarrow> nat" where
  "par_weight \<sigma> =
     5 * length (todo \<sigma>) + pc_weight (pc \<sigma>) + (\<Sum>g \<in># goroutines \<sigma>. goroutine_weight g)"

section \<open>Slices in memory\<close>

text \<open>
  Whether an operation leaves its receiver alone depends on which backing arrays it
  writes, so this section keeps them. A heap is the list of the arrays allocated so
  far, and the address of an array is its position in that list. A slice is Go's
  slice header: the array it points into, the position of its first element there,
  its length and its capacity. All arrays of one heap hold values of one type \<open>'v\<close>;
  a program that maps a \<^verbatim>\<open>Stream[T]\<close> to a \<^verbatim>\<open>Stream[R]\<close> takes for \<open>'v\<close> a type
  that holds both. Every operation takes the heap and returns the new one.

  Two things belong to Go's runtime and not to this repository: the zero value that
  fresh memory holds, and the capacity \<^verbatim>\<open>append\<close> chooses when it has to grow a
  slice (from the old capacity and the needed length). They are the fields of
  \<open>rt\<close>.
\<close>

type_synonym 'v heap = "'v list list"

record slice =
  ptr :: nat
  off :: nat
  len :: nat
  cap :: nat

text \<open>\<^verbatim>\<open>var result []T\<close>: the nil slice has no array; its pointer is never followed.\<close>

definition nil_slice :: slice where
  "nil_slice = \<lparr>ptr = 0, off = 0, len = 0, cap = 0\<rparr>"

text \<open>The elements of a slice, and the read \<^verbatim>\<open>sl[i]\<close>.\<close>

definition slice_elems :: "'v heap \<Rightarrow> slice \<Rightarrow> 'v list" where
  "slice_elems h sl = take (len sl) (drop (off sl) (h ! ptr sl))"

definition slice_index :: "'v heap \<Rightarrow> slice \<Rightarrow> nat \<Rightarrow> 'v" where
  "slice_index h sl i = h ! ptr sl ! (off sl + i)"

text \<open>An array with the values \<open>vs\<close> stored from position \<open>i\<close> on.\<close>

definition write_at :: "'v list \<Rightarrow> nat \<Rightarrow> 'v list \<Rightarrow> 'v list" where
  "write_at arr i vs = take i arr @ vs @ drop (i + length vs) arr"

record 'v runtime =
  zero :: 'v
  growslice_cap :: "nat \<Rightarrow> nat \<Rightarrow> nat"

text \<open>
  \<^verbatim>\<open>make([]T, n)\<close> allocates a zeroed array; \<^verbatim>\<open>copy(dst, src)\<close> stores the first
  \<open>min (len dst) (len src)\<close> elements of \<open>src\<close> into \<open>dst\<close>'s array.
  \<^verbatim>\<open>append(sl, vs...)\<close> stores \<open>vs\<close> behind the slice's elements in its own array
  when the capacity suffices, and otherwise allocates a new array, copies the
  elements there and leaves the old array as it is.
\<close>

definition make_slice :: "'v runtime \<Rightarrow> 'v heap \<Rightarrow> nat \<Rightarrow> slice \<times> 'v heap" where
  "make_slice rt h n =
     (\<lparr>ptr = length h, off = 0, len = n, cap = n\<rparr>, h @ [replicate n (zero rt)])"

definition copy_slice :: "'v heap \<Rightarrow> slice \<Rightarrow> slice \<Rightarrow> 'v heap" where
  "copy_slice h dst src =
     (let n = min (len dst) (len src) in
      h[ptr dst := write_at (h ! ptr dst) (off dst) (take n (slice_elems h src))])"

definition append_slice :: "'v runtime \<Rightarrow> 'v heap \<Rightarrow> slice \<Rightarrow> 'v list \<Rightarrow> slice \<times> 'v heap" where
  "append_slice rt h sl vs =
     (if len sl + length vs \<le> cap sl
      then (sl\<lparr>len := len sl + length vs\<rparr>,
            h[ptr sl := write_at (h ! ptr sl) (off sl + len sl) vs])
      else
        (let newcap = growslice_cap rt (cap sl) (len sl + length vs);
             arr = slice_elems h sl @ vs @ replicate (newcap - (len sl + length vs)) (zero rt)
         in (\<lparr>ptr = length h, off = 0, len = len sl + length vs, cap = newcap\<rparr>, h @ [arr])))"

text \<open>
  \<^verbatim>\<open>sort.Slice\<close> sorts in place: the slice's part of its array is replaced by what
  the library routine makes of the slice's elements.
\<close>

definition sort_Slice_mem ::
  "'v slice_sorter \<Rightarrow> ('v \<Rightarrow> 'v \<Rightarrow> bool) \<Rightarrow> 'v heap \<Rightarrow> slice \<Rightarrow> 'v heap" where
  "sort_Slice_mem sort_Slice less_fn h sl =
     h[ptr sl := write_at (h ! ptr sl) (off sl) (sort_Slice less_fn (slice_elems h sl))]"

subsection \<open>The transforming operations on slices in memory\<close>

record Stream_mem =
  elements_mem :: slice

definition NewStream_mem :: "slice \<Rightarrow> Stream_mem" where
  "NewStream_mem sl = \<lparr>elements_mem = sl\<rparr>"

text \<open>
  \<^verbatim>\<open>for _, e := range src { body }\<close>: the slice header is read once, the element
  at position \<open>i\<close> is read from the heap as it is in the \<open>i\<close>-th round, and the
  body changes the loop's variables \<open>st\<close> and the heap.
\<close>

fun range_mem ::
  "('v \<Rightarrow> 'st \<Rightarrow> 'v heap \<Rightarrow> 'st \<times> 'v heap) \<Rightarrow> slice \<Rightarrow> nat list \<Rightarrow> 'st \<Rightarrow> 'v heap
   \<Rightarrow> 'st \<times> 'v heap" where
  "range_mem body src [] st h = (st, h)"
| "range_mem body src (i # is) st h =
     (case body (slice_index h src i) st h of (st', h') \<Rightarrow> range_mem body src is st' h')"

definition for_range ::
  "('v \<Rightarrow> 'st \<Rightarrow> 'v heap \<Rightarrow> 'st \<times> 'v heap) \<Rightarrow> slice \<Rightarrow> 'st \<Rightarrow> 'v heap \<Rightarrow> 'st \<times> 'v heap" where
  "for_range body src st h = range_mem body src [0..<len src] st h"

definition Filter_mem ::
  "'v runtime \<Rightarrow> 'v heap \<Rightarrow> Stream_mem \<Rightarrow> ('v \<Rightarrow> bool) \<Rightarrow> Stream_mem \<times> 'v heap" where
  "Filter_mem rt h s predicate =
     (case for_range
             (\<lambda>e result h. if predicate e then append_slice rt h result [e] else (result, h))
             (elements_mem s) nil_slice h of
        (result, h') \<Rightarrow> (NewStream_mem result, h'))"

definition Sort_mem ::
  "'v runtime \<Rightarrow> 'v slice_sorter \<Rightarrow> 'v heap \<Rightarrow> Stream_mem \<Rightarrow> ('v \<Rightarrow> 'v \<Rightarrow> bool)
   \<Rightarrow> Stream_mem \<times> 'v heap" where
  "Sort_mem rt sort_Slice h s less_fn =
     (case make_slice rt h (len (elements_mem s)) of
        (result, h1) \<Rightarrow>
          (let h2 = copy_slice h1 result (elements_mem s);
               h3 = sort_Slice_mem sort_Slice less_fn h2 result
           in (NewStream_mem result, h3)))"

definition FlatMap_mem ::
  "'v runtime \<Rightarrow> 'v heap \<Rightarrow> Stream_mem \<Rightarrow> ('v \<Rightarrow> 'v list) \<Rightarrow> Stream_mem \<times> 'v heap" where
  "FlatMap_mem rt h stream mapper =
     (case for_range (\<lambda>e result h. append_slice rt h result (mapper e))
             (elements_mem stream) nil_slice h of
        (result, h') \<Rightarrow> (NewStream_mem result, h'))"

definition Distinct_mem ::
  "'v runtime \<Rightarrow> ('v \<Rightarrow> string) \<Rightarrow> 'v heap \<Rightarrow> Stream_mem \<Rightarrow> Stream_mem \<times> 'v heap" where
  "Distinct_mem rt Sprintf_v h s =
     (case for_range
             (\<lambda>e (uniqueMap, result) h.
                let key = Sprintf_v e in
                case uniqueMap key of
                  None \<Rightarrow>
                    (case append_slice rt h result [e] of
                       (result', h') \<Rightarrow> ((uniqueMap(key \<mapsto> True), result'), h'))
                | Some exists \<Rightarrow> ((uniqueMap, result), h))
             (elements_mem s) (Map.empty, nil_slice) h of
        ((uniqueMap, result), h') \<Rightarrow> (NewStream_mem result, h'))"

definition Map_mem ::
  "'v runtime \<Rightarrow> 'v heap \<Rightarrow> Stream_mem \<Rightarrow> ('v \<Rightarrow> 'v) \<Rightarrow> Stream_mem \<times> 'v heap" where
  "Map_mem rt h stream mapper =
     (case for_range (\<lambda>e result h. append_slice rt h result [mapper e])
             (elements_mem stream) nil_slice h of
        (result, h') \<Rightarrow> (NewStream_mem result, h'))"

text \<open>
  \<^verbatim>\<open>Limit\<close> returns the receiver itself or a slice of the receiver's array:
  \<^verbatim>\<open>stream.elements[:n]\<close> keeps pointer and capacity.
\<close>

definition Limit_mem ::
  "'v heap \<Rightarrow> Stream_mem \<Rightarrow> int \<Rightarrow> (panic + Stream_mem) \<times> 'v heap" where
  "Limit_mem h stream n =
     (if n \<ge> int (len (elements_mem stream)) then (Inr stream, h)
      else if n < 0 then (Inl (SliceBoundsOutOfRange n), h)
      else (Inr (NewStream_mem ((elements_mem stream)\<lparr>len := nat n\<rparr>)), h))"

section \<open>The library routine behind Sort: Go's sort.Slice\<close>

text \<open>
  \<^verbatim>\<open>sort.Slice\<close> is not code of this repository. What follows transcribes the part
  of Go's standard library that \<^verbatim>\<open>sort.Slice\<close> runs on a slice shorter than 50
  elements (package \<^verbatim>\<open>sort\<close>, file \<^verbatim>\<open>zsortfunc.go\<close>, Go 1.19 and later: the
  pattern-defeating quicksort \<^verbatim>\<open>pdqsort_func\<close> with \<^verbatim>\<open>insertionSort_func\<close>,
  \<^verbatim>\<open>choosePivot_func\<close>, \<^verbatim>\<open>partialInsertionSort_func\<close>, \<^verbatim>\<open>partition_func\<close>,
  \<^verbatim>\<open>partitionEqual_func\<close> and \<^verbatim>\<open>reverseRange_func\<close>). It serves one purpose: to
  evaluate \<^verbatim>\<open>Sort\<close> on a concrete stream. The model is partial. Where the library
  goes on to \<^verbatim>\<open>heapSort_func\<close> or \<^verbatim>\<open>breakPatterns_func\<close>, or takes the branches
  for 50 elements and more, the model gives \<open>None\<close>, and so it does when the fuel
  of the main loop runs out.

  \<^verbatim>\<open>data.Less(i, j)\<close> is \<^verbatim>\<open>less(x[i], x[j])\<close> and \<^verbatim>\<open>data.Swap(i, j)\<close> exchanges
  \<^verbatim>\<open>x[i]\<close> and \<^verbatim>\<open>x[j]\<close>; indices are Go \<^verbatim>\<open>int\<close>s.
\<close>

definition Less :: "('a \<Rightarrow> 'a \<Rightarrow> bool) \<Rightarrow> 'a list \<Rightarrow> int \<Rightarrow> int \<Rightarrow> bool" where
  "Less less_fn data i j = less_fn (data ! nat i) (data ! nat j)"

definition Swap :: "'a list \<Rightarrow> int \<Rightarrow> int \<Rightarrow> 'a list" where
  "Swap data i j = data[nat i := data ! nat j, nat j := data ! nat i]"

function insertionSort_inner ::
  "('a \<Rightarrow> 'a \<Rightarrow> bool) \<Rightarrow> int \<Rightarrow> int \<Rightarrow> 'a list \<Rightarrow> 'a list" where
  "insertionSort_inner less_fn a j data =
     (if j > a \<and> Less less_fn data j (j - 1)
      then insertionSort_inner less_fn a (j - 1) (Swap data j (j - 1))
      else data)"
  by pat_completeness auto
termination
  by (relation "measure (\<lambda>(less_fn, a, j, data). nat (j - a))") auto

function insertionSort_outer ::
  "('a \<Rightarrow> 'a \<Rightarrow> bool) \<Rightarrow> int \<Rightarrow> int \<Rightarrow> int \<Rightarrow> 'a list \<Rightarrow> 'a list" where
  "insertionSort_outer less_fn a b i data =
     (if i < b
      then insertionSort_outer less_fn a b (i + 1) (insertionSort_inner less_fn a i data)
      else data)"
  by pat_completeness auto
termination
  by (relation "measure (\<lambda>(less_fn, a, b, i, data). nat (b - i))") auto

declare insertionSort_inner.simps [simp del] insertionSort_outer.simps [simp del]

definition insertionSort_func ::
  "('a \<Rightarrow> 'a \<Rightarrow> bool) \<Rightarrow> 'a list \<Rightarrow> int \<Rightarrow> int \<Rightarrow> 'a list" where
  "insertionSort_func less_fn data a b = insertionSort_outer less_fn a b (a + 1) data"

datatype sortedHint = unknownHint | increasingHint | decreasingHint

definition order2_func ::
  "('a \<Rightarrow> 'a \<Rightarrow> bool) \<Rightarrow> 'a list \<Rightarrow> int \<Rightarrow> int \<Rightarrow> int \<Rightarrow> int \<times> int \<times> int" where
  "order2_func less_fn data a b swaps =
     (if Less less_fn data b a then (b, a, swaps + 1) else (a, b, swaps))"

definition median_func ::
  "('a \<Rightarrow> 'a \<Rightarrow> bool) \<Rightarrow> 'a list \<Rightarrow> int \<Rightarrow> int \<Rightarrow> int \<Rightarrow> int \<Rightarrow> int \<times> int" where
  "median_func less_fn data a b c swaps =
     (case order2_func less_fn data a b swaps of (a, b, swaps) \<Rightarrow>
      case order2_func less_fn data b c swaps of (b, c, swaps) \<Rightarrow>
      case order2_func less_fn data a b swaps of (a, b, swaps) \<Rightarrow> (b, swaps))"

text \<open>
  \<^verbatim>\<open>choosePivot_func\<close>: below 8 elements the middle one, below 50 the median of
  three (\<^verbatim>\<open>shortestNinther\<close> is 50; \<^verbatim>\<open>maxSwaps\<close> is \<open>4 * 3\<close>).
\<close>

definition choosePivot_func ::
  "('a \<Rightarrow> 'a \<Rightarrow> bool) \<Rightarrow> 'a list \<Rightarrow> int \<Rightarrow> int \<Rightarrow> (int \<times> sortedHint) option" where
  "choosePivot_func less_fn data a b =
     (let l = b - a;
          i = a + l div 4 * 1;
          j = a + l div 4 * 2;
          k = a + l div 4 * 3
      in if l \<ge> 8
         then (if l \<ge> 50 then None
               else (case median_func less_fn data i j k 0 of
                       (j, swaps) \<Rightarrow>
                         Some (j, if swaps = 0 then increasingHint
                                  else if swaps = 4 * 3 then decreasingHint
                                  else unknownHint)))
         else Some (j, increasingHint))"

function reverseRange_loop :: "'a list \<Rightarrow> int \<Rightarrow> int \<Rightarrow> 'a list" where
  "reverseRange_loop data i j =
     (if i < j then reverseRange_loop (Swap data i j) (i + 1) (j - 1) else data)"
  by pat_completeness auto
termination
  by (relation "measure (\<lambda>(data, i, j). nat (j - i))") auto

declare reverseRange_loop.simps [simp del]

definition reverseRange_func :: "'a list \<Rightarrow> int \<Rightarrow> int \<Rightarrow> 'a list" where
  "reverseRange_func data a b = reverseRange_loop data a (b - 1)"

text \<open>
  \<^verbatim>\<open>partialInsertionSort_func\<close>: the first round of its loop skips the pairs that
  are in order; it returns \<^verbatim>\<open>true\<close> when that reaches the end, and \<^verbatim>\<open>false\<close> on a
  slice shorter than 50 elements (\<^verbatim>\<open>shortestShifting\<close>) without having moved
  anything.
\<close>

function partialInsertionSort_scan ::
  "('a \<Rightarrow> 'a \<Rightarrow> bool) \<Rightarrow> 'a list \<Rightarrow> int \<Rightarrow> int \<Rightarrow> int" where
  "partialInsertionSort_scan less_fn data i b =
     (if i < b \<and> \<not> Less less_fn data i (i - 1)
      then partialInsertionSort_scan less_fn data (i + 1) b
      else i)"
  by pat_completeness auto
termination
  by (relation "measure (\<lambda>(less_fn, data, i, b). nat (b - i))") auto

declare partialInsertionSort_scan.simps [simp del]

definition partialInsertionSort_func ::
  "('a \<Rightarrow> 'a \<Rightarrow> bool) \<Rightarrow> 'a list \<Rightarrow> int \<Rightarrow> int \<Rightarrow> bool option" where
  "partialInsertionSort_func less_fn data a b =
     (let i = partialInsertionSort_scan less_fn data (a + 1) b
      in if i = b then Some True
         else if b - a < 50 then Some False
         else None)"

text \<open>
  \<^verbatim>\<open>partition_func\<close>: the pivot goes to position \<open>a\<close>, \<open>i\<close> moves up over the
  elements less than the pivot, \<open>j\<close> moves down over the others, and the two
  elements they stop at are exchanged until they cross.
\<close>

function partition_up :: "('a \<Rightarrow> 'a \<Rightarrow> bool) \<Rightarrow> 'a list \<Rightarrow> int \<Rightarrow> int \<Rightarrow> int \<Rightarrow> int" where
  "partition_up less_fn data a i j =
     (if i \<le> j \<and> Less less_fn data i a then partition_up less_fn data a (i + 1) j else i)"
  by pat_completeness auto
termination
  by (relation "measure (\<lambda>(less_fn, data, a, i, j). nat (j + 1 - i))") auto

function partition_down :: "('a \<Rightarrow> 'a \<Rightarrow> bool) \<Rightarrow> 'a list \<Rightarrow> int \<Rightarrow> int \<Rightarrow> int \<Rightarrow> int" where
  "partition_down less_fn data a i j =
     (if i \<le> j \<and> \<not> Less less_fn data j a then partition_down less_fn data a i (j - 1) else j)"
  by pat_completeness auto
termination
  by (relation "measure (\<lambda>(less_fn, data, a, i, j). nat (j + 1 - i))") auto

declare partition_up.simps [simp del] partition_down.simps [simp del]

lemma partition_up_ge: "i \<le> partition_up less_fn data a i j"
proof (induction less_fn data a i j rule: partition_up.induct)
  case (1 less_fn data a i j)
  show ?case
  proof (cases "i \<le> j \<and> Less less_fn data i a")
    case True
    then have "i + 1 \<le> partition_up less_fn data a (i + 1) j"
      using "1.IH" by simp
    then show ?thesis
      using True by (subst partition_up.simps) simp
  next
    case False
    then show ?thesis
      by (subst partition_up.simps) auto
  qed
qed

lemma partition_down_le: "partition_down less_fn data a i j \<le> j"
proof (induction less_fn data a i j rule: partition_down.induct)
  case (1 less_fn data a i j)
  show ?case
  proof (cases "i \<le> j \<and> \<not> Less less_fn data j a")
    case True
    then have "partition_down less_fn data a i (j - 1) \<le> j - 1"
      using "1.IH" by simp
    then show ?thesis
      using True by (subst partition_down.simps) simp
  next
    case False
    then show ?thesis
      by (subst partition_down.simps) auto
  qed
qed

function partition_loop ::
  "('a \<Rightarrow> 'a \<Rightarrow> bool) \<Rightarrow> 'a list \<Rightarrow> int \<Rightarrow> int \<Rightarrow> int \<Rightarrow> 'a list \<times> int" where
  "partition_loop less_fn data a i j =
     (let i = partition_up less_fn data a i j;
          j = partition_down less_fn data a i j
      in if i > j then (data, j)
         else partition_loop less_fn (Swap data i j) a (i + 1) (j - 1))"
  by pat_completeness auto
termination
proof (relation "measure (\<lambda>(less_fn, data, a, i, j). nat (j + 1 - i))", goal_cases)
  case 1
  show ?case by simp
next
  case (2 less_fn data a i j i' j')
  have "i \<le> i'" using 2(1) partition_up_ge by simp
  moreover have "j' \<le> j" using 2(2) partition_down_le by simp
  ultimately show ?case using 2(3) by simp
qed

declare partition_loop.simps [simp del]

definition partition_func ::
  "('a \<Rightarrow> 'a \<Rightarrow> bool) \<Rightarrow> 'a list \<Rightarrow> int \<Rightarrow> int \<Rightarrow> int \<Rightarrow> 'a list \<times> int \<times> bool" where
  "partition_func less_fn data a b pivot =
     (let data = Swap data a pivot;
          i = partition_up less_fn data a (a + 1) (b - 1);
          j = partition_down less_fn data a i (b - 1)
      in if i > j then (Swap data j a, j, True)
         else (case partition_loop less_fn (Swap data i j) a (i + 1) (j - 1) of
                 (data, j) \<Rightarrow> (Swap data j a, j, False)))"


function partitionEqual_up :: "('a \<Rightarrow> 'a \<Rightarrow> bool) \<Rightarrow> 'a list \<Rightarrow> int \<Rightarrow> int \<Rightarrow> int \<Rightarrow> int" where
  "partitionEqual_up less_fn data a i j =
     (if i \<le> j \<and> \<not> Less less_fn data a i then partitionEqual_up less_fn data a (i + 1) j
      else i)"
  by pat_completeness auto
termination
  by (relation "measure (\<lambda>(less_fn, data, a, i, j). nat (j + 1 - i))") auto

function partitionEqual_down :: "('a \<Rightarrow> 'a \<Rightarrow> bool) \<Rightarrow> 'a list \<Rightarrow> int \<Rightarrow> int \<Rightarrow> int \<Rightarrow> int" where
  "partitionEqual_down less_fn data a i j =
     (if i \<le> j \<and> Less less_fn data a j then partitionEqual_down less_fn data a i (j - 1)
      else j)"
  by pat_completeness auto
termination
  by (relation "measure (\<lambda>(less_fn, data, a, i, j). nat (j + 1 - i))") auto

declare partitionEqual_up.simps [simp del] partitionEqual_down.simps [simp del]

lemma partitionEqual_up_ge: "i \<le> partitionEqual_up less_fn data a i j"
proof (induction less_fn data a i j rule: partitionEqual_up.induct)
  case (1 less_fn data a i j)
  show ?case
  proof (cases "i \<le> j \<and> \<not> Less less_fn data a i")
    case True
    then have "i + 1 \<le> partitionEqual_up less_fn data a (i + 1) j"
      using "1.IH" by simp
    then show ?thesis
      using True by (subst partitionEqual_up.simps) simp
  next
    case False
    then show ?thesis
      by (subst partitionEqual_up.simps) auto
  qed
qed

lemma partitionEqual_down_le: "partitionEqual_down less_fn data a i j \<le> j"
proof (induction less_fn data a i j rule: partitionEqual_down.induct)
  case (1 less_fn data a i j)
  show ?case
  proof (cases "i \<le> j \<and> Less less_fn data a j")
    case True
    then have "partitionEqual_down less_fn data a i (j - 1) \<le> j - 1"
      using "1.IH" by simp
    then show ?thesis
      using True by (subst partitionEqual_down.simps) simp
  next
    case False
    then show ?thesis
      by (subst partitionEqual_down.simps) auto
  qed
qed

function partitionEqual_loop ::
  "('a \<Rightarrow> 'a \<Rightarrow> bool) \<Rightarrow> 'a list \<Rightarrow> int \<Rightarrow> int \<Rightarrow> int \<Rightarrow> 'a list \<times> int" where
  "partitionEqual_loop less_fn data a i j =
     (let i = partitionEqual_up less_fn data a i j;
          j = partitionEqual_down less_fn data a i j
      in if i > j then (data, i)
         else partitionEqual_loop less_fn (Swap data i j) a (i + 1) (j - 1))"
  by pat_completeness auto
termination
proof (relation "measure (\<lambda>(less_fn, data, a, i, j). nat (j + 1 - i))", goal_cases)
  case 1
  show ?case by simp
next
  case (2 less_fn data a i j i' j')
  have "i \<le> i'" using 2(1) partitionEqual_up_ge by simp
  moreover have "j' \<le> j" using 2(2) partitionEqual_down_le by simp
  ultimately show ?case using 2(3) by simp
qed

declare partitionEqual_loop.simps [simp del]

definition partitionEqual_func ::
  "('a \<Rightarrow> 'a \<Rightarrow> bool) \<Rightarrow> 'a list \<Rightarrow> int \<Rightarrow> int \<Rightarrow> int \<Rightarrow> 'a list \<times> int" where
  "partitionEqual_func less_fn data a b pivot =
     partitionEqual_loop less_fn (Swap data a pivot) a (a + 1) (b - 1)"

text \<open>
  \<^verbatim>\<open>pdqsort_func\<close>: one equation is one round of the \<^verbatim>\<open>for\<close> loop; the next
  round and the recursive call on the smaller side are the recursive calls here,
  the latter with both flags set as in a fresh call.
\<close>

fun pdqsort_func ::
  "nat \<Rightarrow> ('a \<Rightarrow> 'a \<Rightarrow> bool) \<Rightarrow> 'a list \<Rightarrow> int \<Rightarrow> int \<Rightarrow> int \<Rightarrow> bool \<Rightarrow> bool
   \<Rightarrow> 'a list option" where
  "pdqsort_func 0 less_fn data a b limit wasBalanced wasPartitioned = None"
| "pdqsort_func (Suc fuel) less_fn data a b limit wasBalanced wasPartitioned =
     (let n = b - a in
      if n \<le> 12 then Some (insertionSort_func less_fn data a b)
      else if limit = 0 then None
      else if \<not> wasBalanced then None
      else
        (case choosePivot_func less_fn data a b of
           None \<Rightarrow> None
         | Some (pivot, hint) \<Rightarrow>
           (case (if hint = decreasingHint
                  then (reverseRange_func data a b, (b - 1) - (pivot - a), increasingHint)
                  else (data, pivot, hint)) of
              (data, pivot, hint) \<Rightarrow>
              (case (if wasBalanced \<and> wasPartitioned \<and> hint = increasingHint
                     then partialInsertionSort_func less_fn data a b
                     else Some False) of
                 None \<Rightarrow> None
               | Some True \<Rightarrow> Some data
               | Some False \<Rightarrow>
                   if a > 0 \<and> \<not> Less less_fn data (a - 1) pivot
                   then (case partitionEqual_func less_fn data a b pivot of
                           (data, mid) \<Rightarrow>
                             pdqsort_func fuel less_fn data mid b limit wasBalanced wasPartitioned)
                   else
                     (case partition_func less_fn data a b pivot of
                        (data, mid, alreadyPartitioned) \<Rightarrow>
                          (let leftLen = mid - a; rightLen = b - mid;
                               balanceThreshold = n div 8
                           in if leftLen < rightLen
                              then (case pdqsort_func fuel less_fn data a mid limit True True of
                                      None \<Rightarrow> None
                                    | Some data \<Rightarrow>
                                        pdqsort_func fuel less_fn data (mid + 1) b limit
                                          (leftLen \<ge> balanceThreshold) alreadyPartitioned)
                              else (case pdqsort_func fuel less_fn data (mid + 1) b limit True True of
                                      None \<Rightarrow> None
                                    | Some data \<Rightarrow>
                                        pdqsort_func fuel less_fn data a mid limit
                                          (rightLen \<ge> balanceThreshold) alreadyPartitioned)))))))"

text \<open>
  \<^verbatim>\<open>sort.Slice\<close> itself: \<^verbatim>\<open>pdqsort_func(lessSwap{less, swap}, 0, length, limit)\<close>
  with \<^verbatim>\<open>limit = bits.Len(uint(length))\<close>.
\<close>

fun bits_Len :: "nat \<Rightarrow> nat" where
  "bits_Len x = (if x = 0 then 0 else Suc (bits_Len (x div 2)))"

declare bits_Len.simps [simp del]

definition sort_Slice_pdqsort :: "('a \<Rightarrow> 'a \<Rightarrow> bool) \<Rightarrow> 'a list \<Rightarrow> 'a list option" where
  "sort_Slice_pdqsort less_fn x =
     (let n = length x; limit = bits_Len n
      in pdqsort_func (Suc n) less_fn x 0 (int n) (int limit) True True)"

text \<open>A stream of thirteen records and a comparison of their keys, used below.\<close>

definition by_key :: "int \<times> int \<Rightarrow> int \<times> int \<Rightarrow> bool" where
  "by_key p q = (fst p < fst q)"

definition thirteen :: "(int \<times> int) list" where
  "thirteen = [(1, 0), (1, 1), (1, 2), (1, 3), (1, 4), (1, 5), (1, 6), (1, 7), (1, 8),
               (1, 9), (1, 10), (1, 11), (0, 12)]"

section \<open>Auxiliary definitions of the proofs\<close>

subsection \<open>An auxiliary function for the proofs about Distinct\<close>


subsection \<open>Auxiliary predicates for the proofs about slices in memory\<close>

text \<open>
  \<open>readable h sl\<close>: the elements of \<open>sl\<close> lie inside an array of \<open>h\<close>.
  \<open>owned h0 h r\<close>: the slice \<open>r\<close> is nil, or its array was allocated after the
  heap was \<open>h0\<close> and holds \<open>r\<close>'s length and capacity.
\<close>

definition owned :: "'v heap \<Rightarrow> 'v heap \<Rightarrow> slice \<Rightarrow> bool" where
  "owned h0 h r =
     ((cap r = 0 \<and> len r = 0)
      \<or> (length h0 \<le> ptr r \<and> ptr r < length h
         \<and> off r + len r \<le> length (h ! ptr r) \<and> off r + cap r \<le> length (h ! ptr r)))"

definition readable :: "'v heap \<Rightarrow> slice \<Rightarrow> bool" where
  "readable h sl =
     (len sl = 0 \<or> (ptr sl < length h \<and> off sl + len sl \<le> length (h ! ptr sl)))"

section \<open>Properties of the sequential operations\<close>

subsection \<open>What the loops compute\<close>

lemma Filter_loop_eq: "Filter_loop p es result = result @ filter p es"
  by (induction es arbitrary: result) simp_all

lemma Map_loop_eq: "Map_loop f es result = result @ map f es"
  by (induction es arbitrary: result) simp_all

lemma FlatMap_loop_eq: "FlatMap_loop f es result = result @ concat (map f es)"
  by (induction es arbitrary: result) simp_all

lemma Reduce_loop_eq: "Reduce_loop r es a = foldl r a es"
  by (induction es arbitrary: a) simp_all

lemma elements_Map: "elements (Map stream f) = map f (elements stream)"
  by (simp add: Map_def NewStream_def Map_loop_eq)

lemma elements_Filter: "elements (Filter s p) = filter p (elements s)"
  by (simp add: Filter_def NewStream_def Filter_loop_eq)

lemma elements_FlatMap: "elements (FlatMap stream f) = concat (map f (elements stream))"
  by (simp add: FlatMap_def NewStream_def FlatMap_loop_eq)

subsection \<open>NewStream and ToSlice, Collect\<close>

text \<open>
  C10. For every slice \<open>xs\<close>, \<^verbatim>\<open>ToSlice\<close> and both \<^verbatim>\<open>Collect\<close>s applied to
  \<^verbatim>\<open>NewStream(xs)\<close> return \<open>xs\<close> itself: the same elements in the same order, hence
  the same length.
\<close>

theorem NewStream_ToSlice_Collect_identity:
  "ToSlice (NewStream xs) = xs \<and> Collect_method (NewStream xs) = xs
   \<and> Collect_stream (NewStream xs) = xs"
  by (simp add: ToSlice_def Collect_method_def Collect_stream_def NewStream_def)

subsection \<open>FindFirst and FindAny\<close>

text \<open>
  C6. \<^verbatim>\<open>FindAny\<close> and \<^verbatim>\<open>FindFirst\<close> return the same Optional on every stream: the
  first element wrapped by \<^verbatim>\<open>optional.Of\<close> when the stream has an element,
  \<^verbatim>\<open>optional.Empty\<close> when it has none. Both are total: neither branch can fail.
\<close>

theorem FindAny_FindFirst_equal:
  "FindAny z s = FindFirst z s
   \<and> FindFirst z s = (case elements s of [] \<Rightarrow> Empty z | e # es \<Rightarrow> Of e)
   \<and> IsPresent (FindFirst z s) = (elements s \<noteq> [])"
  by (cases "elements s") (simp_all add: FindAny_def FindFirst_def IsPresent_def Of_def Empty_def)

subsection \<open>Map\<close>

text \<open>
  C8. \<^verbatim>\<open>Map\<close> with \<open>f\<close> followed by \<^verbatim>\<open>Map\<close> with \<open>g\<close> is the stream that one
  \<^verbatim>\<open>Map\<close> with \<open>g \<circ> f\<close> returns; \<^verbatim>\<open>Map\<close> keeps the length, and the element at
  every position \<open>i\<close> of the result is \<open>f\<close> of the element at position \<open>i\<close> of the
  input.
\<close>

theorem Map_composition_length_order:
  "Map (Map s f) g = Map s (g \<circ> f)
   \<and> length (elements (Map s f)) = length (elements s)
   \<and> (\<forall>i < length (elements s). elements (Map s f) ! i = f (elements s ! i))"
  by (simp add: Map_def NewStream_def Map_loop_eq)

theorem Map_composition_length_order_witness:
  "Map (Map (NewStream [1, 2, 3 :: int]) (\<lambda>x. x + 1)) (\<lambda>x. 2 * x) = NewStream [4, 6, 8]
   \<and> length (elements (Map (NewStream [1, 2, 3 :: int]) (\<lambda>x. x + 1))) = 3
   \<and> elements (Map (NewStream [1, 2, 3 :: int]) (\<lambda>x. x + 1)) ! 2 = 4"
proof -
  let ?s = "NewStream [1, 2, 3 :: int]"
  note law = Map_composition_length_order [of ?s "\<lambda>x. x + 1" "\<lambda>x. 2 * x"]
  have once: "Map ?s ((\<lambda>x. 2 * x) \<circ> (\<lambda>x. x + 1)) = NewStream [4, 6, 8]"
    by (simp add: Map_def NewStream_def)
  have len: "length (elements ?s) = 3" and two: "(2::nat) < length (elements ?s)"
    and at2: "elements ?s ! 2 = 3"
    by (simp_all add: NewStream_def)
  have "elements (Map ?s (\<lambda>x. x + 1)) ! 2 = elements ?s ! 2 + 1"
    using law two by blast
  then show ?thesis
    using law once len at2 by simp
qed

subsection \<open>GroupBy\<close>

lemma filter_key_absent:
  "key \<notin> keyMapper ` set es \<Longrightarrow> filter (\<lambda>e. keyMapper e = key) es = []"
  by (induction es) auto

lemma GroupBy_loop_eq:
  "GroupBy_loop keyMapper es result key =
     (if key \<in> keyMapper ` set es
      then Some (lookup_slice result key @ filter (\<lambda>e. keyMapper e = key) es)
      else result key)"
  by (induction es arbitrary: result) (simp_all add: Let_def lookup_slice_def filter_key_absent)

lemma GroupByWithValueMapper_loop_eq:
  "GroupByWithValueMapper_loop keyMapper valueMapper es result key =
     (if key \<in> keyMapper ` set es
      then Some (lookup_slice result key
                 @ map valueMapper (filter (\<lambda>e. keyMapper e = key) es))
      else result key)"
  by (induction es arbitrary: result) (simp_all add: Let_def lookup_slice_def filter_key_absent)

text \<open>
  C7. The map \<^verbatim>\<open>GroupBy\<close> returns (the generic function and the method alike)
  has an entry for exactly the keys of the stream's elements, and the group of a key
  holds the elements with that key in the order in which they occur in the stream.
  \<^verbatim>\<open>GroupByWithValueMapper\<close> holds, for the same keys, the mapped values of those
  elements in the same order.
\<close>

theorem GroupBy_groups_in_stream_order:
  "GroupBy stream keyMapper key =
     (if key \<in> keyMapper ` set (elements stream)
      then Some (filter (\<lambda>e. keyMapper e = key) (elements stream))
      else None)
   \<and> GroupBy_method stream keyMapper key = GroupBy stream keyMapper key
   \<and> GroupByWithValueMapper stream keyMapper valueMapper key =
     (if key \<in> keyMapper ` set (elements stream)
      then Some (map valueMapper (filter (\<lambda>e. keyMapper e = key) (elements stream)))
      else None)"
  by (simp add: GroupBy_def GroupBy_method_def GroupByWithValueMapper_def GroupBy_loop_eq
      GroupByWithValueMapper_loop_eq lookup_slice_def)

lemma GroupBy_methods_in_stream_order:
  "GroupBy_method s keyMapper = GroupBy s keyMapper
   \<and> GroupByAndTransform s keyMapper valueMapper = GroupByWithValueMapper s keyMapper valueMapper"
  by (simp add: GroupBy_method_def GroupBy_def GroupByAndTransform_def GroupByWithValueMapper_def)

text \<open>The spec's scenario: people grouped by age.\<close>

lemma GroupBy_people_by_age:
  "GroupBy (NewStream [(25 :: int, ''A''), (30, ''B''), (25, ''C'')]) fst 25
     = Some [(25, ''A''), (25, ''C'')]
   \<and> GroupBy (NewStream [(25 :: int, ''A''), (30, ''B''), (25, ''C'')]) fst 30
     = Some [(30, ''B'')]
   \<and> GroupBy (NewStream [(25 :: int, ''A''), (30, ''B''), (25, ''C'')]) fst 40 = None"
  by (simp add: GroupBy_def NewStream_def lookup_slice_def)

subsection \<open>Distinct\<close>











subsection \<open>Sort\<close>

lemma sort_Slice_pdqsort_thirteen:
  "sort_Slice_pdqsort by_key thirteen
   = Some [(0, 12), (1, 6), (1, 2), (1, 3), (1, 4), (1, 5), (1, 0), (1, 7), (1, 8),
           (1, 9), (1, 10), (1, 11), (1, 1)]"
  unfolding thirteen_def by code_simp

text \<open>
  C1. \<^verbatim>\<open>Sort\<close> is not stable. The stream holds twelve records with key 1,
  numbered 0 to 11 in stream order, and then one record with key 0; the comparison
  looks at the key only. With any \<^verbatim>\<open>sort.Slice\<close> that does on this input what
  Go's pdqsort does, \<^verbatim>\<open>Sort\<close> returns record 6 before record 0 (and record 1
  last), although record 0 comes first in the stream and neither is less than the
  other.
\<close>

theorem Sort_not_stable_with_pdqsort:
  assumes "\<forall>less_fn x y. sort_Slice_pdqsort less_fn x = Some y \<longrightarrow> sort_Slice less_fn x = y"
  shows "elements (Sort sort_Slice (NewStream thirteen) by_key)
         = [(0, 12), (1, 6), (1, 2), (1, 3), (1, 4), (1, 5), (1, 0), (1, 7), (1, 8),
            (1, 9), (1, 10), (1, 11), (1, 1)]"
  using assms sort_Slice_pdqsort_thirteen by (simp add: Sort_def NewStream_def)

theorem Sort_not_stable_with_pdqsort_witness:
  "elements (Sort (\<lambda>less_fn x. case sort_Slice_pdqsort less_fn x of Some y \<Rightarrow> y | None \<Rightarrow> x)
               (NewStream thirteen) by_key)
   = [(0, 12), (1, 6), (1, 2), (1, 3), (1, 4), (1, 5), (1, 0), (1, 7), (1, 8),
      (1, 9), (1, 10), (1, 11), (1, 1)]"
  by (rule Sort_not_stable_with_pdqsort) simp

subsection \<open>Limit\<close>

lemma Limit_nonnegative:
  "0 \<le> n \<Longrightarrow>
   \<exists>s'. Limit stream n = Inr s'
     \<and> elements s' = take (min (nat n) (length (elements stream))) (elements stream)"
  by (auto simp: Limit_def NewStream_def min_def)

text \<open>
  C2. \<^verbatim>\<open>Limit\<close> with a negative \<open>n\<close> does not return the empty stream: \<open>n\<close> is
  below the length, so the slice expression \<^verbatim>\<open>stream.elements[:n]\<close> is evaluated
  and panics. Here \<^verbatim>\<open>Limit(NewStream([]int{1, 2, 3}), -1)\<close>.
\<close>

theorem Limit_negative_panics:
  "Limit (NewStream [1, 2, 3 :: int]) (- 1) = Inl (SliceBoundsOutOfRange (- 1))"
  by (simp add: Limit_def NewStream_def)

subsection \<open>The empty stream\<close>

text \<open>
  What each sequential operation returns on the empty stream. \<^verbatim>\<open>Sort\<close> returns
  what \<^verbatim>\<open>sort.Slice\<close> leaves of an empty slice, and \<^verbatim>\<open>Limit\<close> returns the
  empty stream for every \<open>n\<close> that is not negative.
\<close>

lemma operations_on_empty_stream:
  "Filter (NewStream []) predicate = NewStream []"
  "Map (NewStream []) mapper = NewStream []"
  "FlatMap (NewStream []) slice_mapper = NewStream []"
  "FlatMap_method (NewStream []) slice_mapper = NewStream []"
  "Sort sort_Slice (NewStream []) less_fn = NewStream (sort_Slice less_fn [])"
  "Distinct Sprintf_v (NewStream []) = NewStream []"
  "0 \<le> n \<Longrightarrow> Limit (NewStream []) n = Inr (NewStream [])"
  "Reduce (NewStream []) reducer initialValue = initialValue"
  "FindFirst z (NewStream []) = Empty z"
  "FindAny z (NewStream []) = Empty z"
  "Count (NewStream []) = 0"
  "Join Sprintf_v (NewStream []) separator = []"
  "GroupBy (NewStream []) keyMapper = Map.empty"
  "GroupByWithValueMapper (NewStream []) keyMapper valueMapper = Map.empty"
  by (simp_all add: Filter_def Map_def FlatMap_def FlatMap_method_def Sort_def Distinct_def
      Limit_def Reduce_def FindFirst_def FindAny_def Count_def Join_def GroupBy_def
      GroupByWithValueMapper_def NewStream_def)

text \<open>Go's \<^verbatim>\<open>sort.Slice\<close> leaves the empty slice empty.\<close>

lemma sort_Slice_pdqsort_empty: "sort_Slice_pdqsort less_fn [] = Some []"
  by (simp add: sort_Slice_pdqsort_def insertionSort_func_def
      insertionSort_outer.simps [of _ 0 0 1])

text \<open>
  C3. Not every sequential operation is total on the empty stream: \<^verbatim>\<open>Limit\<close> with
  a negative \<open>n\<close> panics there as on any other stream, since \<open>n \<ge> 0\<close> fails and
  \<^verbatim>\<open>stream.elements[:n]\<close> is evaluated. Here \<^verbatim>\<open>Limit(NewStream([]int{}), -1)\<close>.
\<close>

theorem Limit_of_empty_stream_panics:
  "Limit (NewStream ([] :: int list)) (- 1) = Inl (SliceBoundsOutOfRange (- 1))"
  by (simp add: Limit_def NewStream_def)

section \<open>Properties of the parallel stage\<close>

lemma par_inv_init: "par_inv mapper es (par_init es)"
  by (simp add: par_inv_def par_init_def unsent_def)

lemma par_inv_step:
  assumes "par_step mapper k n \<sigma> \<sigma>'" and "par_inv mapper es \<sigma>"
  shows "par_inv mapper es \<sigma>'"
  using assms
proof (cases rule: par_step.cases)
  case (wg_Add e es')
  then show ?thesis using assms(2) by (simp add: par_inv_def unsent_def)
next
  case (sem_acquire_go e)
  then show ?thesis using assms(2) by (simp add: par_inv_def unsent_def)
next
  case range_end
  then show ?thesis using assms(2) by (simp add: par_inv_def unsent_def)
next
  case (send_result el)
  then obtain G where G: "goroutines \<sigma> = add_mset (Started el) G"
    by (meson mset_add)
  show ?thesis using assms(2) send_result G by (simp add: par_inv_def unsent_def)
next
  case sem_release
  then obtain G where G: "goroutines \<sigma> = add_mset Sent G"
    by (meson mset_add)
  show ?thesis using assms(2) sem_release G by (simp add: par_inv_def unsent_def)
next
  case wg_Done
  then obtain G where G: "goroutines \<sigma> = add_mset Released G"
    by (meson mset_add)
  show ?thesis using assms(2) wg_Done G by (simp add: par_inv_def unsent_def)
next
  case wg_Wait_collect
  then show ?thesis using assms(2) by (auto simp add: par_inv_def unsent_def)
qed

lemma par_inv_reachable:
  "(par_step mapper k n)\<^sup>*\<^sup>* (par_init es) \<sigma> \<Longrightarrow> par_inv mapper es \<sigma>"
  by (induction rule: rtranclp_induct) (auto intro: par_inv_init par_inv_step)


lemma par_step_weight:
  assumes "par_step mapper k n \<sigma> \<sigma>'"
  shows "Suc (par_weight \<sigma>') = par_weight \<sigma>"
  using assms
proof (cases rule: par_step.cases)
  case (send_result el)
  then obtain G where G: "goroutines \<sigma> = add_mset (Started el) G"
    by (meson mset_add)
  show ?thesis using send_result G by (simp add: par_weight_def)
next
  case sem_release
  then obtain G where G: "goroutines \<sigma> = add_mset Sent G"
    by (meson mset_add)
  show ?thesis using sem_release G by (simp add: par_weight_def)
next
  case wg_Done
  then obtain G where G: "goroutines \<sigma> = add_mset Released G"
    by (meson mset_add)
  show ?thesis using wg_Done G by (simp add: par_weight_def)
qed (simp_all add: par_weight_def)

lemma par_inv_sizes:
  assumes "par_inv mapper es \<sigma>"
  shows "length (resultChan \<sigma>) + size (unsent \<sigma>) = length es"
proof -
  have "size (mset (resultChan \<sigma>) + image_mset mapper (unsent \<sigma>))
        = size (image_mset mapper (mset es))"
    using assms by (simp only: par_inv_def)
  then show ?thesis by simp
qed

lemma par_progress:
  assumes inv: "par_inv mapper es \<sigma>" and k: "0 < k"
    and running: "\<forall>r. pc \<sigma> \<noteq> Returned r"
  shows "\<exists>\<sigma>'. par_step mapper k (length es) \<sigma> \<sigma>'"
proof (cases "goroutines \<sigma> = {#}")
  case True
  show ?thesis
  proof (cases "pc \<sigma>")
    case Ranging
    then show ?thesis
      by (cases "todo \<sigma>") (blast intro: par_step.range_end par_step.wg_Add)+
  next
    case (Acquiring e)
    have "sem \<sigma> = 0"
      using inv True by (simp add: par_inv_def)
    then show ?thesis
      using Acquiring k par_step.sem_acquire_go [of \<sigma> e k mapper] by auto
  next
    case Waiting
    have "wg \<sigma> = 0"
      using inv True Waiting by (simp add: par_inv_def)
    then show ?thesis
      using Waiting par_step.wg_Wait_collect by blast
  next
    case (Returned r)
    then show ?thesis using running by simp
  qed
next
  case False
  then obtain g G where G: "goroutines \<sigma> = add_mset g G"
    by (meson multiset_cases)
  show ?thesis
  proof (cases g)
    case (Started el)
    have "0 < size (unsent \<sigma>)"
      using G Started by (simp add: unsent_def)
    then have room: "length (resultChan \<sigma>) < length es"
      using par_inv_sizes [OF inv] by linarith
    have "Started el \<in># goroutines \<sigma>"
      using G Started by simp
    then have "par_step mapper k (length es) \<sigma>
        (\<sigma>\<lparr>resultChan := resultChan \<sigma> @ [mapper el],
           goroutines := goroutines \<sigma> - {#Started el#} + {#Sent#}\<rparr>)"
      using room by (rule par_step.send_result)
    then show ?thesis ..
  next
    case Sent
    have "0 < sem \<sigma>"
      using inv G Sent by (simp add: par_inv_def)
    moreover have "Sent \<in># goroutines \<sigma>"
      using G Sent by simp
    ultimately show ?thesis
      using par_step.sem_release by blast
  next
    case Released
    have "0 < wg \<sigma>"
      using inv G by (simp add: par_inv_def)
    moreover have "Released \<in># goroutines \<sigma>"
      using G Released by simp
    ultimately show ?thesis
      using par_step.wg_Done by blast
  qed
qed

lemma par_always_returns:
  assumes "par_inv mapper es \<sigma>" and "0 < k"
  shows "\<exists>\<sigma>' r. (par_step mapper k (length es))\<^sup>*\<^sup>* \<sigma> \<sigma>' \<and> pc \<sigma>' = Returned r"
  using assms(1)
proof (induction "par_weight \<sigma>" arbitrary: \<sigma> rule: less_induct)
  case less
  show ?case
  proof (cases "\<exists>r. pc \<sigma> = Returned r")
    case True
    then show ?thesis by blast
  next
    case False
    then obtain \<sigma>1 where step: "par_step mapper k (length es) \<sigma> \<sigma>1"
      using par_progress [OF less.prems assms(2)] by blast
    have "par_weight \<sigma>1 < par_weight \<sigma>"
      using par_step_weight [OF step] by simp
    moreover have "par_inv mapper es \<sigma>1"
      using step less.prems by (rule par_inv_step)
    ultimately obtain \<sigma>' r where
      "(par_step mapper k (length es))\<^sup>*\<^sup>* \<sigma>1 \<sigma>'" "pc \<sigma>' = Returned r"
      using less.hyps by blast
    then show ?thesis
      using step by (meson converse_rtranclp_into_rtranclp)
  qed
qed

lemma par_returned_result:
  assumes "par_inv mapper es \<sigma>" and "pc \<sigma> = Returned r"
  shows "mset r = image_mset mapper (mset es)"
  using assms by (auto simp: par_inv_def)

lemma semaphore_size_positive:
  "0 < gomaxprocs \<Longrightarrow> 0 < semaphore_size gomaxprocs maxGoroutines"
  by (simp add: semaphore_size_def)

text \<open>
  C4. For every stream, mapper and budget \<^verbatim>\<open>maxGoroutines\<close> (zero and negative
  budgets fall back to \<^verbatim>\<open>runtime.GOMAXPROCS(0)\<close>, which is positive), the call
  \<^verbatim>\<open>ParallelStream\<close> returns, and the stream it returns has the length of the
  input and, as a multiset, exactly the \<open>mapper\<close> images of the input's elements:
  no result is dropped or duplicated. In full: some interleaving returns; whatever
  stream an interleaving returns is as said; no interleaving gets stuck, since
  every state the call can reach has returned or has a next step; and no
  interleaving runs forever, since every step lowers \<open>par_weight\<close>.
\<close>

theorem ParallelStream_one_result_per_element:
  assumes "0 < gomaxprocs"
  shows "(\<exists>out. ParallelStream_returns gomaxprocs s mapper maxGoroutines out)
   \<and> (\<forall>out. ParallelStream_returns gomaxprocs s mapper maxGoroutines out \<longrightarrow>
         length (elements out) = length (elements s)
         \<and> mset (elements out) = image_mset mapper (mset (elements s)))
   \<and> (\<forall>\<sigma>. (par_step mapper (semaphore_size gomaxprocs maxGoroutines)
               (length (elements s)))\<^sup>*\<^sup>* (par_init (elements s)) \<sigma> \<longrightarrow>
         (\<exists>result. pc \<sigma> = Returned result)
         \<or> (\<exists>\<sigma>'. par_step mapper (semaphore_size gomaxprocs maxGoroutines)
                  (length (elements s)) \<sigma> \<sigma>'))
   \<and> (\<forall>\<sigma> \<sigma>'. par_step mapper (semaphore_size gomaxprocs maxGoroutines)
               (length (elements s)) \<sigma> \<sigma>' \<longrightarrow>
         par_weight \<sigma>' < par_weight \<sigma>)"
proof (intro conjI)
  show "\<exists>out. ParallelStream_returns gomaxprocs s mapper maxGoroutines out"
    using par_always_returns [OF par_inv_init semaphore_size_positive [OF assms]]
    unfolding ParallelStream_returns_def by blast
next
  show "\<forall>out. ParallelStream_returns gomaxprocs s mapper maxGoroutines out \<longrightarrow>
         length (elements out) = length (elements s)
         \<and> mset (elements out) = image_mset mapper (mset (elements s))"
  proof (intro allI impI)
    fix out
    assume "ParallelStream_returns gomaxprocs s mapper maxGoroutines out"
    then obtain \<sigma> result where
      run: "(par_step mapper (semaphore_size gomaxprocs maxGoroutines) (length (elements s)))\<^sup>*\<^sup>*
             (par_init (elements s)) \<sigma>"
      and ret: "pc \<sigma> = Returned result" and out: "out = NewStream result"
      unfolding ParallelStream_returns_def by blast
    have ms: "mset result = image_mset mapper (mset (elements s))"
      using par_inv_reachable [OF run] ret by (rule par_returned_result)
    then have "size (mset result) = size (image_mset mapper (mset (elements s)))"
      by simp
    then have "length result = length (elements s)"
      by simp
    then show "length (elements out) = length (elements s)
         \<and> mset (elements out) = image_mset mapper (mset (elements s))"
      using ms out by (simp add: NewStream_def)
  qed
next
  show "\<forall>\<sigma>. (par_step mapper (semaphore_size gomaxprocs maxGoroutines)
               (length (elements s)))\<^sup>*\<^sup>* (par_init (elements s)) \<sigma> \<longrightarrow>
         (\<exists>result. pc \<sigma> = Returned result)
         \<or> (\<exists>\<sigma>'. par_step mapper (semaphore_size gomaxprocs maxGoroutines)
                  (length (elements s)) \<sigma> \<sigma>')"
  proof (intro allI impI)
    fix \<sigma>
    assume run: "(par_step mapper (semaphore_size gomaxprocs maxGoroutines)
               (length (elements s)))\<^sup>*\<^sup>* (par_init (elements s)) \<sigma>"
    have inv: "par_inv mapper (elements s) \<sigma>"
      using run by (rule par_inv_reachable)
    show "(\<exists>result. pc \<sigma> = Returned result)
         \<or> (\<exists>\<sigma>'. par_step mapper (semaphore_size gomaxprocs maxGoroutines)
                  (length (elements s)) \<sigma> \<sigma>')"
    proof (cases "\<exists>result. pc \<sigma> = Returned result")
      case True
      then show ?thesis ..
    next
      case False
      then have "\<forall>r. pc \<sigma> \<noteq> Returned r"
        by simp
      then have "\<exists>\<sigma>'. par_step mapper (semaphore_size gomaxprocs maxGoroutines)
                  (length (elements s)) \<sigma> \<sigma>'"
        using inv semaphore_size_positive [OF assms] par_progress by blast
      then show ?thesis ..
    qed
  qed
next
  show "\<forall>\<sigma> \<sigma>'. par_step mapper (semaphore_size gomaxprocs maxGoroutines)
               (length (elements s)) \<sigma> \<sigma>' \<longrightarrow>
         par_weight \<sigma>' < par_weight \<sigma>"
  proof (intro allI impI)
    fix \<sigma> \<sigma>'
    assume "par_step mapper (semaphore_size gomaxprocs maxGoroutines)
               (length (elements s)) \<sigma> \<sigma>'"
    then have "Suc (par_weight \<sigma>') = par_weight \<sigma>"
      by (rule par_step_weight)
    then show "par_weight \<sigma>' < par_weight \<sigma>"
      by simp
  qed
qed

theorem ParallelStream_one_result_per_element_witness:
  "(0::int) < 8
   \<and> (\<exists>out. ParallelStream_returns 8 (NewStream [1, 2, 3, 4, 5 :: int]) (\<lambda>i. i * 2) 2 out
         \<and> length (elements out) = 5
         \<and> mset (elements out) = {#2, 4, 6, 8, 10#})"
proof -
  let ?s = "NewStream [1, 2, 3, 4, 5 :: int]"
  have pos: "(0::int) < 8" by simp
  note par = ParallelStream_one_result_per_element
    [OF pos, where s = ?s and mapper = "\<lambda>i. i * 2" and maxGoroutines = 2]
  have some: "\<exists>out. ParallelStream_returns 8 ?s (\<lambda>i. i * 2) 2 out"
    using par by (rule conjunct1)
  have every: "\<forall>out. ParallelStream_returns 8 ?s (\<lambda>i. i * 2) 2 out \<longrightarrow>
         length (elements out) = length (elements ?s)
         \<and> mset (elements out) = image_mset (\<lambda>i. i * 2) (mset (elements ?s))"
    using par by (rule conjunct2 [THEN conjunct1])
  obtain out where ret: "ParallelStream_returns 8 ?s (\<lambda>i. i * 2) 2 out"
    using some by blast
  then have "length (elements out) = length (elements ?s)"
    and "mset (elements out) = image_mset (\<lambda>i. i * 2) (mset (elements ?s))"
    using every by blast+
  then have "length (elements out) = 5 \<and> mset (elements out) = {#2, 4, 6, 8, 10#}"
    by (simp add: NewStream_def)
  then show ?thesis using ret pos by blast
qed

text \<open>
  The order of the results is not the order of the input: in this interleaving the
  worker for the second element sends first.
\<close>

lemma ParallelStream_may_reorder:
  "ParallelStream_returns 8 (NewStream [1, 2 :: int]) (\<lambda>i. i * 2) 2 (NewStream [4, 2])"
proof -
  let ?step = "par_step (\<lambda>i :: int. i * 2) 2 2"
  let ?S = "\<lambda>(p :: (int, int) main_pc) (t :: int list) (g :: int goroutine multiset)
      (s :: nat) (w :: nat) (c :: int list).
      \<lparr>pc = p, todo = t, goroutines = g, sem = s, wg = w, resultChan = c\<rparr>"
  have 1: "?step (?S Ranging [1, 2] {#} 0 0 []) (?S (Acquiring 1) [2] {#} 0 1 [])"
    using
      par_step.wg_Add [where mapper = "\<lambda>i :: int. i * 2" and sem_cap = 2 and chan_cap = 2
        and \<sigma> = "?S Ranging [1, 2] {#} 0 0 []" and e = 1 and es = "[2]"]
    by (simp add: numeral_2_eq_2 add_mset_commute)
  have 2: "?step (?S (Acquiring 1) [2] {#} 0 1 []) (?S Ranging [2] {#Started 1#} 1 1 [])"
    using
      par_step.sem_acquire_go [where mapper = "\<lambda>i :: int. i * 2" and sem_cap = 2 and chan_cap = 2
        and \<sigma> = "?S (Acquiring 1) [2] {#} 0 1 []" and e = 1]
    by (simp add: numeral_2_eq_2 add_mset_commute)
  have 3: "?step (?S Ranging [2] {#Started 1#} 1 1 [])
                 (?S (Acquiring 2) [] {#Started 1#} 1 2 [])"
    using
      par_step.wg_Add [where mapper = "\<lambda>i :: int. i * 2" and sem_cap = 2 and chan_cap = 2
        and \<sigma> = "?S Ranging [2] {#Started 1#} 1 1 []" and e = 2 and es = "[]"]
    by (simp add: numeral_2_eq_2 add_mset_commute)
  have 4: "?step (?S (Acquiring 2) [] {#Started 1#} 1 2 [])
                 (?S Ranging [] {#Started 1, Started 2#} 2 2 [])"
    using
      par_step.sem_acquire_go [where mapper = "\<lambda>i :: int. i * 2" and sem_cap = 2 and chan_cap = 2
        and \<sigma> = "?S (Acquiring 2) [] {#Started 1#} 1 2 []" and e = 2]
    by (simp add: numeral_2_eq_2 add_mset_commute)
  have 5: "?step (?S Ranging [] {#Started 1, Started 2#} 2 2 [])
                 (?S Ranging [] {#Started 1, Sent#} 2 2 [4])"
    using
      par_step.send_result [where mapper = "\<lambda>i :: int. i * 2" and sem_cap = 2 and chan_cap = 2
        and \<sigma> = "?S Ranging [] {#Started 1, Started 2#} 2 2 []" and el = 2]
    by (simp add: numeral_2_eq_2 add_mset_commute)
  have 6: "?step (?S Ranging [] {#Started 1, Sent#} 2 2 [4])
                 (?S Ranging [] {#Sent, Sent#} 2 2 [4, 2])"
    using
      par_step.send_result [where mapper = "\<lambda>i :: int. i * 2" and sem_cap = 2 and chan_cap = 2
        and \<sigma> = "?S Ranging [] {#Started 1, Sent#} 2 2 [4]" and el = 1]
    by (simp add: numeral_2_eq_2 add_mset_commute)
  have 7: "?step (?S Ranging [] {#Sent, Sent#} 2 2 [4, 2])
                 (?S Ranging [] {#Sent, Released#} 1 2 [4, 2])"
    using
      par_step.sem_release [where mapper = "\<lambda>i :: int. i * 2" and sem_cap = 2 and chan_cap = 2
        and \<sigma> = "?S Ranging [] {#Sent, Sent#} 2 2 [4, 2]"]
    by (simp add: numeral_2_eq_2 add_mset_commute)
  have 8: "?step (?S Ranging [] {#Sent, Released#} 1 2 [4, 2])
                 (?S Ranging [] {#Released, Released#} 0 2 [4, 2])"
    using
      par_step.sem_release [where mapper = "\<lambda>i :: int. i * 2" and sem_cap = 2 and chan_cap = 2
        and \<sigma> = "?S Ranging [] {#Sent, Released#} 1 2 [4, 2]"]
    by (simp add: numeral_2_eq_2 add_mset_commute)
  have 9: "?step (?S Ranging [] {#Released, Released#} 0 2 [4, 2])
                 (?S Ranging [] {#Released#} 0 1 [4, 2])"
    using
      par_step.wg_Done [where mapper = "\<lambda>i :: int. i * 2" and sem_cap = 2 and chan_cap = 2
        and \<sigma> = "?S Ranging [] {#Released, Released#} 0 2 [4, 2]"]
    by (simp add: numeral_2_eq_2 add_mset_commute)
  have 10: "?step (?S Ranging [] {#Released#} 0 1 [4, 2]) (?S Ranging [] {#} 0 0 [4, 2])"
    using
      par_step.wg_Done [where mapper = "\<lambda>i :: int. i * 2" and sem_cap = 2 and chan_cap = 2
        and \<sigma> = "?S Ranging [] {#Released#} 0 1 [4, 2]"]
    by (simp add: numeral_2_eq_2 add_mset_commute)
  have 11: "?step (?S Ranging [] {#} 0 0 [4, 2]) (?S Waiting [] {#} 0 0 [4, 2])"
    using
      par_step.range_end [where mapper = "\<lambda>i :: int. i * 2" and sem_cap = 2 and chan_cap = 2
        and \<sigma> = "?S Ranging [] {#} 0 0 [4, 2]"]
    by (simp add: numeral_2_eq_2 add_mset_commute)
  have 12: "?step (?S Waiting [] {#} 0 0 [4, 2]) (?S (Returned [4, 2]) [] {#} 0 0 [4, 2])"
    using
      par_step.wg_Wait_collect [where mapper = "\<lambda>i :: int. i * 2" and sem_cap = 2 and chan_cap = 2
        and \<sigma> = "?S Waiting [] {#} 0 0 [4, 2]"]
    by (simp add: numeral_2_eq_2 add_mset_commute)
  have "?step\<^sup>*\<^sup>* (?S Ranging [1, 2] {#} 0 0 []) (?S (Returned [4, 2]) [] {#} 0 0 [4, 2])"
    using 1 2 3 4 5 6 7 8 9 10 11 12 by (meson rtranclp.rtrancl_into_rtrancl rtranclp.rtrancl_refl)
  then show ?thesis
    unfolding ParallelStream_returns_def
    by (intro exI [of _ "?S (Returned [4, 2]) [] {#} 0 0 [4, 2]"] exI [of _ "[4, 2]"])
      (simp add: par_init_def NewStream_def semaphore_size_def numeral_2_eq_2)
qed

section \<open>Properties of the operations on slices in memory\<close>

subsection \<open>Arrays and append\<close>

lemma write_at_Nil [simp]: "write_at arr i [] = arr"
  by (simp add: write_at_def)

lemma length_write_at:
  "i + length vs \<le> length arr \<Longrightarrow> length (write_at arr i vs) = length arr"
  by (simp add: write_at_def)

lemma take_write_at:
  "i + length vs \<le> length arr \<Longrightarrow> o' \<le> i \<Longrightarrow>
   take (i - o' + length vs) (drop o' (write_at arr i vs)) = take (i - o') (drop o' arr) @ vs"
proof -
  assume fits: "i + length vs \<le> length arr" and le: "o' \<le> i"
  have a: "drop o' (write_at arr i vs)
           = drop o' (take i arr) @ vs @ drop (i + length vs) arr"
    using fits le by (simp add: write_at_def)
  have b: "length (drop o' (take i arr)) = i - o'"
    using fits by simp
  have c: "drop o' (take i arr) = take (i - o') (drop o' arr)"
    by (simp add: drop_take)
  show ?thesis
    unfolding a using b c by simp
qed

lemma prefix_list_update:
  "prefix h0 h \<Longrightarrow> length h0 \<le> p \<Longrightarrow> prefix h0 (h[p := x])"
  by (auto simp: prefix_def list_update_append)

lemma list_update_same: "h[p := h ! p] = h"
  by (cases "p < length h") simp_all

lemma append_slice_owned:
  assumes "prefix h0 h" and "owned h0 h r" and "append_slice rt h r vs = (r', h')"
  shows "prefix h0 h' \<and> owned h0 h' r' \<and> slice_elems h' r' = slice_elems h r @ vs"
proof (cases "len r + length vs \<le> cap r")
  case True
  then have r': "r' = r\<lparr>len := len r + length vs\<rparr>"
    and h': "h' = h[ptr r := write_at (h ! ptr r) (off r + len r) vs]"
    using assms(3) by (simp_all add: append_slice_def)
  show ?thesis
  proof (cases "cap r = 0")
    case True
    then have "vs = []" "len r = 0" using \<open>len r + length vs \<le> cap r\<close> by simp_all
    then show ?thesis
      using assms(1) True r' h' by (simp add: list_update_same owned_def slice_elems_def)
  next
    case False
    then have own: "length h0 \<le> ptr r" "ptr r < length h"
      "off r + len r \<le> length (h ! ptr r)" "off r + cap r \<le> length (h ! ptr r)"
      using assms(2) by (auto simp: owned_def)
    have fits: "off r + len r + length vs \<le> length (h ! ptr r)"
      using own True by linarith
    have "prefix h0 h'"
      unfolding h' using assms(1) own(1) by (rule prefix_list_update)
    moreover have "owned h0 h' r'"
      using own fits True by (simp add: owned_def r' h' length_write_at)
    moreover have "slice_elems h' r' = slice_elems h r @ vs"
      using take_write_at [OF fits, of "off r"] own
      by (simp add: slice_elems_def r' h')
    ultimately show ?thesis by simp
  qed
next
  case False
  have le: "length h0 \<le> length h"
    using assms(1) by (rule prefix_length_le)
  let ?c = "growslice_cap rt (cap r) (len r + length vs)"
  let ?arr = "slice_elems h r @ vs @ replicate (?c - (len r + length vs)) (zero rt)"
  have r': "r' = \<lparr>ptr = length h, off = 0, len = len r + length vs, cap = ?c\<rparr>"
    and h': "h' = h @ [?arr]"
    using assms(3) False by (simp_all add: append_slice_def Let_def)
  have n: "length (slice_elems h r) = len r"
    using assms(2) by (auto simp: owned_def slice_elems_def)
  have "prefix h0 h'"
    unfolding h' using assms(1) by (rule prefix_order.trans) simp
  moreover have "owned h0 h' r'"
    using le n by (auto simp: owned_def r' h')
  moreover have "slice_elems h' r' = slice_elems h r @ vs"
    using n by (simp add: r' h' slice_elems_def [of "h @ _"])
  ultimately show ?thesis by simp
qed

lemma owned_nil: "owned h0 h nil_slice"
  by (simp add: owned_def nil_slice_def)

subsection \<open>The range loop\<close>

lemma range_mem_invariant:
  assumes step: "\<And>e st h st' h'. I st h \<Longrightarrow> body e st h = (st', h') \<Longrightarrow> I st' h'"
    and "I st h" and "range_mem body src is st h = (st', h')"
  shows "I st' h'"
  using assms(2,3)
proof (induction "is" arbitrary: st h)
  case Nil
  then show ?case by simp
next
  case (Cons i "is")
  obtain st1 h1 where b: "body (slice_index h src i) st h = (st1, h1)"
    by (cases "body (slice_index h src i) st h")
  have "I st1 h1"
    using Cons.prems(1) b by (rule step)
  moreover have "range_mem body src is st1 h1 = (st', h')"
    using Cons.prems(2) b by simp
  ultimately show ?case
    by (rule Cons.IH)
qed

lemma range_mem_simulation:
  assumes step: "\<And>i st hc a st' hc'. i < len src \<Longrightarrow> R st hc a \<Longrightarrow>
        body (slice_index hc src i) st hc = (st', hc') \<Longrightarrow> R st' hc' (abody a (xs ! i))"
    and "R st h a" and "range_mem body src is st h = (st', h')"
    and "\<forall>i \<in> set is. i < len src"
  shows "R st' h' (foldl abody a (map ((!) xs) is))"
  using assms(2-)
proof (induction "is" arbitrary: st h a)
  case Nil
  then show ?case by simp
next
  case (Cons i "is")
  obtain st1 h1 where b: "body (slice_index h src i) st h = (st1, h1)"
    by (cases "body (slice_index h src i) st h")
  have "i < len src"
    using Cons.prems(3) by simp
  then have "R st1 h1 (abody a (xs ! i))"
    using Cons.prems(1) b by (rule step)
  moreover have "range_mem body src is st1 h1 = (st', h')"
    using Cons.prems(2) b by simp
  moreover have "\<forall>i \<in> set is. i < len src"
    using Cons.prems(3) by simp
  ultimately have "R st' h' (foldl abody (abody a (xs ! i)) (map ((!) xs) is))"
    by (rule Cons.IH)
  then show ?case by simp
qed

lemma length_slice_elems: "readable h sl \<Longrightarrow> length (slice_elems h sl) = len sl"
  by (auto simp: readable_def slice_elems_def)

lemma slice_index_prefix:
  assumes "readable h sl" and "prefix h hc" and "i < len sl"
  shows "slice_index hc sl i = slice_elems h sl ! i"
proof -
  have p: "ptr sl < length h" and fits: "off sl + len sl \<le> length (h ! ptr sl)"
    using assms(1,3) by (auto simp: readable_def)
  have "hc ! ptr sl = h ! ptr sl"
    using assms(2) p by (auto simp: prefix_def nth_append)
  then show ?thesis
    using assms(3) fits by (simp add: slice_index_def slice_elems_def)
qed

lemma slice_elems_prefix:
  assumes "readable h sl" and "prefix h h'"
  shows "slice_elems h' sl = slice_elems h sl"
proof (cases "len sl = 0")
  case True
  then show ?thesis by (simp add: slice_elems_def)
next
  case False
  then have "ptr sl < length h"
    using assms(1) by (simp add: readable_def)
  then have "h' ! ptr sl = h ! ptr sl"
    using assms(2) by (auto simp: prefix_def nth_append)
  then show ?thesis by (simp add: slice_elems_def)
qed

lemma for_range_simulation:
  assumes rd: "readable h src"
    and step: "\<And>e st hc a st' hc'. R st hc a \<Longrightarrow> body e st hc = (st', hc') \<Longrightarrow> R st' hc' (abody a e)"
    and frame: "\<And>st hc a. R st hc a \<Longrightarrow> prefix h hc"
    and init: "R st h a" and run: "for_range body src st h = (st', h')"
  shows "R st' h' (foldl abody a (slice_elems h src))"
proof -
  let ?xs = "slice_elems h src"
  have "R st' h' (foldl abody a (map ((!) ?xs) [0..<len src]))"
  proof (rule range_mem_simulation [where R = R and body = body and src = src])
    show "R st h a" by (rule init)
    show "range_mem body src [0..<len src] st h = (st', h')"
      using run by (simp add: for_range_def)
    show "\<forall>i \<in> set [0..<len src]. i < len src" by simp
  next
    fix i st hc a st' hc'
    assume i: "i < len src" and R: "R st hc a"
      and b: "body (slice_index hc src i) st hc = (st', hc')"
    have "slice_index hc src i = ?xs ! i"
      using rd frame [OF R] i by (rule slice_index_prefix)
    then show "R st' hc' (abody a (?xs ! i))"
      using step [OF R] b by simp
  qed
  moreover have "map ((!) ?xs) [0..<len src] = ?xs"
    using length_slice_elems [OF rd] map_nth [of ?xs] by simp
  ultimately show ?thesis by simp
qed

subsection \<open>Every operation in memory computes the operation on values\<close>

lemma Filter_loop_foldl:
  "Filter_loop p es result = foldl (\<lambda>a e. if p e then a @ [e] else a) result es"
  by (induction es arbitrary: result) simp_all

lemma Map_loop_foldl: "Map_loop f es result = foldl (\<lambda>a e. a @ [f e]) result es"
  by (induction es arbitrary: result) simp_all

lemma FlatMap_loop_foldl: "FlatMap_loop f es result = foldl (\<lambda>a e. a @ f e) result es"
  by (induction es arbitrary: result) simp_all

lemma Distinct_loop_foldl:
  "Distinct_loop sp es m result
   = snd (foldl (\<lambda>(m, r) e. case m (sp e) of None \<Rightarrow> (m(sp e \<mapsto> True), r @ [e])
                                 | Some b \<Rightarrow> (m, r))
            (m, result) es)"
  by (induction es arbitrary: m result) (simp_all add: Let_def split: option.splits)

lemma Filter_mem_refines:
  assumes "readable h (elements_mem s)"
  shows "prefix h (snd (Filter_mem rt h s predicate))
    \<and> slice_elems (snd (Filter_mem rt h s predicate))
         (elements_mem (fst (Filter_mem rt h s predicate)))
       = elements (Filter (NewStream (slice_elems h (elements_mem s))) predicate)"
proof -
  let ?body = "\<lambda>e result h. if predicate e then append_slice rt h result [e] else (result, h)"
  let ?R = "\<lambda>st hc a. prefix h hc \<and> owned h hc st \<and> slice_elems hc st = a"
  obtain result h' where run: "for_range ?body (elements_mem s) nil_slice h = (result, h')"
    by (cases "for_range ?body (elements_mem s) nil_slice h")
  have "?R result h'
     (foldl (\<lambda>a e. if predicate e then a @ [e] else a) [] (slice_elems h (elements_mem s)))"
  proof (rule for_range_simulation [where R = ?R and body = ?body, OF assms _ _ _ run])
    show "?R nil_slice h []"
      by (simp add: owned_def slice_elems_def nil_slice_def)
  next
    fix e st hc a st' hc'
    assume "?R st hc a" and "?body e st hc = (st', hc')"
    then show "?R st' hc' (if predicate e then a @ [e] else a)"
      using append_slice_owned [of h hc st rt "[e]" st' hc'] by (auto split: if_splits)
  qed simp
  then show ?thesis
    using run by (simp add: Filter_mem_def Filter_def NewStream_def NewStream_mem_def Filter_loop_foldl)
qed


lemma Map_mem_refines:
  assumes "readable h (elements_mem s)"
  shows "prefix h (snd (Map_mem rt h s mapper))
    \<and> slice_elems (snd (Map_mem rt h s mapper)) (elements_mem (fst (Map_mem rt h s mapper)))
       = elements (Map (NewStream (slice_elems h (elements_mem s))) mapper)"
proof -
  let ?body = "\<lambda>e result h. append_slice rt h result [mapper e]"
  let ?R = "\<lambda>st hc a. prefix h hc \<and> owned h hc st \<and> slice_elems hc st = a"
  obtain result h' where run: "for_range ?body (elements_mem s) nil_slice h = (result, h')"
    by (cases "for_range ?body (elements_mem s) nil_slice h")
  have "?R result h' (foldl (\<lambda>a e. a @ [mapper e]) [] (slice_elems h (elements_mem s)))"
  proof (rule for_range_simulation [where R = ?R and body = ?body, OF assms _ _ _ run])
    show "?R nil_slice h []"
      by (simp add: owned_def slice_elems_def nil_slice_def)
  next
    fix e st hc a st' hc'
    assume "?R st hc a" and "?body e st hc = (st', hc')"
    then show "?R st' hc' (a @ [mapper e])"
      using append_slice_owned [of h hc st rt "[mapper e]" st' hc'] by auto
  qed simp
  then show ?thesis
    using run by (simp add: Map_mem_def Map_def NewStream_def NewStream_mem_def Map_loop_foldl)
qed

lemma FlatMap_mem_refines:
  assumes "readable h (elements_mem s)"
  shows "prefix h (snd (FlatMap_mem rt h s mapper))
    \<and> slice_elems (snd (FlatMap_mem rt h s mapper))
         (elements_mem (fst (FlatMap_mem rt h s mapper)))
       = elements (FlatMap (NewStream (slice_elems h (elements_mem s))) mapper)"
proof -
  let ?body = "\<lambda>e result h. append_slice rt h result (mapper e)"
  let ?R = "\<lambda>st hc a. prefix h hc \<and> owned h hc st \<and> slice_elems hc st = a"
  obtain result h' where run: "for_range ?body (elements_mem s) nil_slice h = (result, h')"
    by (cases "for_range ?body (elements_mem s) nil_slice h")
  have "?R result h' (foldl (\<lambda>a e. a @ mapper e) [] (slice_elems h (elements_mem s)))"
  proof (rule for_range_simulation [where R = ?R and body = ?body, OF assms _ _ _ run])
    show "?R nil_slice h []"
      by (simp add: owned_def slice_elems_def nil_slice_def)
  next
    fix e st hc a st' hc'
    assume "?R st hc a" and "?body e st hc = (st', hc')"
    then show "?R st' hc' (a @ mapper e)"
      using append_slice_owned [of h hc st rt "mapper e" st' hc'] by auto
  qed simp
  then show ?thesis
    using run
    by (simp add: FlatMap_mem_def FlatMap_def NewStream_def NewStream_mem_def FlatMap_loop_foldl)
qed

lemma Distinct_mem_refines:
  assumes "readable h (elements_mem s)"
  shows "prefix h (snd (Distinct_mem rt sp h s))
    \<and> slice_elems (snd (Distinct_mem rt sp h s)) (elements_mem (fst (Distinct_mem rt sp h s)))
       = elements (Distinct sp (NewStream (slice_elems h (elements_mem s))))"
proof -
  let ?body = "\<lambda>e (uniqueMap, result) h.
                let key = sp e in
                case uniqueMap key of
                  None \<Rightarrow>
                    (case append_slice rt h result [e] of
                       (result', h') \<Rightarrow> ((uniqueMap(key \<mapsto> True), result'), h'))
                | Some exists \<Rightarrow> ((uniqueMap, result), h)"
  let ?abody = "\<lambda>(m, r) e. case m (sp e) of None \<Rightarrow> (m(sp e \<mapsto> True), r @ [e])
                                 | Some b \<Rightarrow> (m, r)"
  let ?R = "\<lambda>st hc a. prefix h hc \<and> owned h hc (snd st) \<and> fst st = fst a
                        \<and> slice_elems hc (snd st) = snd a"
  obtain st h' where
    run0: "for_range ?body (elements_mem s) (Map.empty, nil_slice) h = (st, h')"
    by (cases "for_range ?body (elements_mem s) (Map.empty, nil_slice) h")
  obtain um result where st: "st = (um, result)"
    by (cases st)
  have run: "for_range ?body (elements_mem s) (Map.empty, nil_slice) h = ((um, result), h')"
    using run0 st by simp
  have "?R (um, result) h' (foldl ?abody (Map.empty, []) (slice_elems h (elements_mem s)))"
  proof (rule for_range_simulation [where R = ?R and body = ?body, OF assms _ _ _ run])
    show "?R (Map.empty, nil_slice) h (Map.empty, [])"
      by (simp add: owned_def slice_elems_def nil_slice_def)
  next
    fix e st hc a st' hc'
    assume R: "?R st hc a" and b: "?body e st hc = (st', hc')"
    obtain m r where st: "st = (m, r)" by (cases st)
    obtain ma ra where a: "a = (ma, ra)" by (cases a)
    show "?R st' hc' (?abody a e)"
    proof (cases "m (sp e)")
      case None
      obtain r1 h1 where app: "append_slice rt hc r [e] = (r1, h1)"
        by (cases "append_slice rt hc r [e]")
      have "prefix h h1 \<and> owned h h1 r1 \<and> slice_elems h1 r1 = slice_elems hc r @ [e]"
        using append_slice_owned [of h hc r rt "[e]" r1 h1] R st app by simp
      then show ?thesis
        using R b None st a app by (auto simp: Let_def)
    next
      case (Some x)
      then show ?thesis
        using R b st a by (auto simp: Let_def)
    qed
  qed simp
  then show ?thesis
    using run
    by (simp add: Distinct_mem_def Distinct_def NewStream_def NewStream_mem_def
        Distinct_loop_foldl)
qed

lemma Sort_mem_frame: "prefix h (snd (Sort_mem rt sort_Slice h s less_fn))"
  by (simp add: Sort_mem_def make_slice_def copy_slice_def sort_Slice_mem_def Let_def
      list_update_append)

lemma Sort_mem_refines:
  assumes rd: "readable h (elements_mem s)"
    and keeps_length: "length (sort_Slice less_fn (slice_elems h (elements_mem s)))
                       = length (slice_elems h (elements_mem s))"
  shows "slice_elems (snd (Sort_mem rt sort_Slice h s less_fn))
           (elements_mem (fst (Sort_mem rt sort_Slice h s less_fn)))
         = elements (Sort sort_Slice (NewStream (slice_elems h (elements_mem s))) less_fn)"
proof -
  let ?src = "elements_mem s"
  let ?xs = "slice_elems h ?src"
  let ?n = "len ?src"
  let ?h1 = "h @ [replicate ?n (zero rt)]"
  let ?result = "\<lparr>ptr = length h, off = 0, len = ?n, cap = ?n\<rparr>"
  have n: "length ?xs = ?n"
    using rd by (rule length_slice_elems)
  have same: "slice_elems ?h1 ?src = ?xs"
    using rd by (rule slice_elems_prefix) simp
  have copied: "copy_slice ?h1 ?result ?src = h @ [?xs]"
    using n by (simp add: copy_slice_def same write_at_def)
  have sorted: "sort_Slice_mem sort_Slice less_fn (h @ [?xs]) ?result
                = h @ [sort_Slice less_fn ?xs]"
    using n keeps_length by (simp add: sort_Slice_mem_def slice_elems_def write_at_def)
  have res: "Sort_mem rt sort_Slice h s less_fn
             = (NewStream_mem ?result, h @ [sort_Slice less_fn ?xs])"
    using copied sorted by (simp add: Sort_mem_def make_slice_def Let_def)
  have "slice_elems (h @ [sort_Slice less_fn ?xs]) ?result = sort_Slice less_fn ?xs"
    using n keeps_length by (simp add: slice_elems_def [of "h @ _"])
  then show ?thesis
    by (simp add: res NewStream_mem_def Sort_def NewStream_def)
qed

lemma Limit_mem_refines:
  assumes "readable h (elements_mem s)"
  shows "snd (Limit_mem h s n) = h
    \<and> map_sum id (\<lambda>s'. NewStream (slice_elems h (elements_mem s'))) (fst (Limit_mem h s n))
       = Limit (NewStream (slice_elems h (elements_mem s))) n"
  using length_slice_elems [OF assms]
  by (auto simp: Limit_mem_def Limit_def NewStream_def NewStream_mem_def slice_elems_def
      min_def)

text \<open>
  C5. Each transforming operation (\<^verbatim>\<open>Filter\<close>, \<^verbatim>\<open>Map\<close>, \<^verbatim>\<open>FlatMap\<close>, \<^verbatim>\<open>Sort\<close>,
  \<^verbatim>\<open>Distinct\<close>, \<^verbatim>\<open>Limit\<close>) leaves the receiver's element sequence as it was:
  read in the heap the operation returns, the receiver's slice holds the same
  elements in the same order as in the heap the operation started from. The
  receiver's slice must lie in the heap (\<open>readable\<close>).
\<close>

theorem transforming_operations_leave_receiver_unchanged:
  assumes "readable h (elements_mem s)"
  shows "slice_elems (snd (Filter_mem rt h s predicate)) (elements_mem s)
           = slice_elems h (elements_mem s)
    \<and> slice_elems (snd (Map_mem rt h s mapper)) (elements_mem s)
           = slice_elems h (elements_mem s)
    \<and> slice_elems (snd (FlatMap_mem rt h s slice_mapper)) (elements_mem s)
           = slice_elems h (elements_mem s)
    \<and> slice_elems (snd (Sort_mem rt sort_Slice h s less_fn)) (elements_mem s)
           = slice_elems h (elements_mem s)
    \<and> slice_elems (snd (Distinct_mem rt Sprintf_v h s)) (elements_mem s)
           = slice_elems h (elements_mem s)
    \<and> slice_elems (snd (Limit_mem h s n)) (elements_mem s)
           = slice_elems h (elements_mem s)"
proof -
  note same = slice_elems_prefix [OF assms]
  have "prefix h (snd (Filter_mem rt h s predicate))"
    using Filter_mem_refines [OF assms] by (rule conjunct1)
  then have filter: "slice_elems (snd (Filter_mem rt h s predicate)) (elements_mem s)
      = slice_elems h (elements_mem s)"
    by (rule same)
  have "prefix h (snd (Map_mem rt h s mapper))"
    using Map_mem_refines [OF assms] by (rule conjunct1)
  then have map: "slice_elems (snd (Map_mem rt h s mapper)) (elements_mem s)
      = slice_elems h (elements_mem s)"
    by (rule same)
  have "prefix h (snd (FlatMap_mem rt h s slice_mapper))"
    using FlatMap_mem_refines [OF assms] by (rule conjunct1)
  then have flatmap: "slice_elems (snd (FlatMap_mem rt h s slice_mapper)) (elements_mem s)
      = slice_elems h (elements_mem s)"
    by (rule same)
  have sort: "slice_elems (snd (Sort_mem rt sort_Slice h s less_fn)) (elements_mem s)
      = slice_elems h (elements_mem s)"
    using Sort_mem_frame by (rule same)
  have "prefix h (snd (Distinct_mem rt Sprintf_v h s))"
    using Distinct_mem_refines [OF assms] by (rule conjunct1)
  then have distinct: "slice_elems (snd (Distinct_mem rt Sprintf_v h s)) (elements_mem s)
      = slice_elems h (elements_mem s)"
    by (rule same)
  have limit: "slice_elems (snd (Limit_mem h s n)) (elements_mem s)
      = slice_elems h (elements_mem s)"
    using Limit_mem_refines [OF assms] by simp
  show ?thesis
    using filter map flatmap sort distinct limit by (intro conjI)
qed

text \<open>
  The witness: a receiver that is a slice \<^verbatim>\<open>a[1:5]\<close> of a six-element array, on a
  runtime that doubles capacities.
\<close>

theorem transforming_operations_leave_receiver_unchanged_witness:
  "readable [[9, 3, 1, 2, 3, 7 :: int]] \<lparr>ptr = 0, off = 1, len = 4, cap = 5\<rparr>
   \<and> slice_elems
         (snd (Filter_mem \<lparr>zero = 0, growslice_cap = (\<lambda>c n. max n (2 * c))\<rparr>
                 [[9, 3, 1, 2, 3, 7 :: int]]
                 (NewStream_mem \<lparr>ptr = 0, off = 1, len = 4, cap = 5\<rparr>) (\<lambda>x. 1 < x)))
         \<lparr>ptr = 0, off = 1, len = 4, cap = 5\<rparr> = [3, 1, 2, 3]
   \<and> slice_elems
         (snd (Sort_mem \<lparr>zero = 0, growslice_cap = (\<lambda>c n. max n (2 * c))\<rparr>
                 (\<lambda>less_fn xs. sort xs) [[9, 3, 1, 2, 3, 7 :: int]]
                 (NewStream_mem \<lparr>ptr = 0, off = 1, len = 4, cap = 5\<rparr>) (<)))
         \<lparr>ptr = 0, off = 1, len = 4, cap = 5\<rparr> = [3, 1, 2, 3]"
proof -
  let ?rt = "\<lparr>zero = 0 :: int, growslice_cap = (\<lambda>c n. max n (2 * c))\<rparr>"
  let ?h = "[[9, 3, 1, 2, 3, 7 :: int]]"
  let ?sl = "\<lparr>ptr = 0, off = 1, len = 4, cap = 5\<rparr>"
  have sl: "elements_mem (NewStream_mem ?sl) = ?sl"
    by (simp add: NewStream_mem_def)
  have rd: "readable ?h (elements_mem (NewStream_mem ?sl))"
    by (simp add: readable_def NewStream_mem_def)
  have before: "slice_elems ?h ?sl = [3, 1, 2, 3]"
    by (simp add: slice_elems_def)
  note unchanged = transforming_operations_leave_receiver_unchanged
    [OF rd, of ?rt "\<lambda>x. 1 < x" _ _ "\<lambda>less_fn xs. sort xs" "(<)"]
  have "slice_elems (snd (Filter_mem ?rt ?h (NewStream_mem ?sl) (\<lambda>x. 1 < x))) ?sl
        = slice_elems ?h ?sl"
    using unchanged unfolding sl by (rule conjunct1)
  moreover have "slice_elems
        (snd (Sort_mem ?rt (\<lambda>less_fn xs. sort xs) ?h (NewStream_mem ?sl) (<))) ?sl
        = slice_elems ?h ?sl"
    using unchanged unfolding sl by blast
  ultimately show ?thesis
    using rd unfolding sl before by simp
qed

text \<open>
  The same receiver, evaluated: \<^verbatim>\<open>Filter\<close> builds its result in arrays of its own
  (three allocations as the result grows), \<^verbatim>\<open>Sort\<close> sorts a copy, and \<^verbatim>\<open>Limit\<close>
  returns a slice that shares the receiver's array.
\<close>

lemma Filter_mem_example:
  "Filter_mem \<lparr>zero = 0, growslice_cap = (\<lambda>c n. max n (2 * c))\<rparr> [[9, 3, 1, 2, 3, 7 :: int]]
     (NewStream_mem \<lparr>ptr = 0, off = 1, len = 4, cap = 5\<rparr>) (\<lambda>x. 1 < x)
   = (NewStream_mem \<lparr>ptr = 3, off = 0, len = 3, cap = 4\<rparr>,
      [[9, 3, 1, 2, 3, 7], [3], [3, 2], [3, 2, 3, 0]])"
  by (simp add: Filter_mem_def for_range_def NewStream_mem_def upt_rec slice_index_def
      append_slice_def nil_slice_def write_at_def slice_elems_def Let_def)

lemma Sort_mem_example:
  "Sort_mem \<lparr>zero = 0, growslice_cap = (\<lambda>c n. max n (2 * c))\<rparr> (\<lambda>less_fn xs. sort xs)
     [[9, 3, 1, 2, 3, 7 :: int]] (NewStream_mem \<lparr>ptr = 0, off = 1, len = 4, cap = 5\<rparr>) (<)
   = (NewStream_mem \<lparr>ptr = 1, off = 0, len = 4, cap = 4\<rparr>,
      [[9, 3, 1, 2, 3, 7], [1, 2, 3, 3]])"
  by (simp add: Sort_mem_def make_slice_def copy_slice_def sort_Slice_mem_def NewStream_mem_def
      write_at_def slice_elems_def Let_def)

lemma Limit_mem_example:
  "Limit_mem [[9, 3, 1, 2, 3, 7 :: int]]
     (NewStream_mem \<lparr>ptr = 0, off = 1, len = 4, cap = 5\<rparr>) 2
   = (Inr (NewStream_mem \<lparr>ptr = 0, off = 1, len = 2, cap = 5\<rparr>), [[9, 3, 1, 2, 3, 7]])"
  by (simp add: Limit_mem_def NewStream_mem_def)

end
